theory Spec2Isabelle
  imports Main "HOL-Library.Monad_Syntax"
begin

text \<open>
  The server of the PDF validator: \<^verbatim>\<open>extractJSON\<close>, \<^verbatim>\<open>validateWithLLM\<close> and the loop of
  the route \<^verbatim>\<open>POST /api/validate\<close>, as a shallow embedding. Line numbers refer to the
  Groq version of the server file.
\<close>

section \<open>Strings and the string built-ins the server calls\<close>

text \<open>
  A JavaScript string is a sequence of UTF-16 code units. The model covers the strings
  whose code units are all below 256 and writes each code unit as one \<^typ>\<open>char\<close>.
  Positions and lengths count code units, as \<^verbatim>\<open>substring\<close>, \<^verbatim>\<open>indexOf\<close> and
  \<^verbatim>\<open>length\<close> do.
\<close>

text \<open>
  The characters that \<^verbatim>\<open>trim()\<close>, the regular expression class \<^verbatim>\<open>\s\<close> and the
  prefix skipping of \<^verbatim>\<open>parseInt\<close> treat as white space, below 256: tab, line feed,
  vertical tab, form feed, carriage return, space and the no-break space.
\<close>

definition isWhiteSpace :: "char \<Rightarrow> bool" where
  "isWhiteSpace c =
     (c = CHR 0x09 \<or> c = CHR 0x0A \<or> c = CHR 0x0B \<or> c = CHR 0x0C \<or> c = CHR 0x0D \<or>
      c = CHR 0x20 \<or> c = CHR 0xA0)"

definition trim :: "string \<Rightarrow> string" where
  "trim s = rev (dropWhile isWhiteSpace (rev (dropWhile isWhiteSpace s)))"

text \<open>\<^verbatim>\<open>s.substring(a, b)\<close>: both indices are cut to the length, and swapped when \<open>b < a\<close>.\<close>

definition substring :: "string \<Rightarrow> nat \<Rightarrow> nat \<Rightarrow> string" where
  "substring s a b = take (max a b - min a b) (drop (min a b) s)"

text \<open>
  \<^verbatim>\<open>toLowerCase()\<close> below 256: the letters A to Z and the capital letters of the
  Latin-1 block (0xC0 to 0xDE without the multiplication sign 0xD7) move up by 32, which
  sets the sixth bit; every other code unit stays.
\<close>

definition isUpper :: "char \<Rightarrow> bool" where
  "isUpper c =
     (let n = (of_char c :: nat)
      in (65 \<le> n \<and> n \<le> 90) \<or> (192 \<le> n \<and> n \<le> 222 \<and> n \<noteq> 215))"

fun lower_char :: "char \<Rightarrow> char" where
  "lower_char (Char b0 b1 b2 b3 b4 b5 b6 b7) =
     (if isUpper (Char b0 b1 b2 b3 b4 b5 b6 b7) then Char b0 b1 b2 b3 b4 True b6 b7
      else Char b0 b1 b2 b3 b4 b5 b6 b7)"

definition toLowerCase :: "string \<Rightarrow> string" where
  "toLowerCase s = map lower_char s"

text \<open>\<^verbatim>\<open>s.includes(sub)\<close>: \<open>sub\<close> occurs somewhere in \<open>s\<close>.\<close>

fun includes_str :: "string \<Rightarrow> string \<Rightarrow> bool" where
  "includes_str [] sub = (sub = [])"
| "includes_str (c # cs) sub = (take (length sub) (c # cs) = sub \<or> includes_str cs sub)"

text \<open>
  \<^verbatim>\<open>indexOf\<close> and \<^verbatim>\<open>lastIndexOf\<close> of one character. JavaScript answers \<open>-1\<close> when
  the character does not occur; the model answers \<open>None\<close>.
\<close>

fun indexOf :: "string \<Rightarrow> char \<Rightarrow> nat option" where
  "indexOf [] c = None"
| "indexOf (x # xs) c = (if x = c then Some 0 else map_option Suc (indexOf xs c))"

definition lastIndexOf :: "string \<Rightarrow> char \<Rightarrow> nat option" where
  "lastIndexOf s c = map_option (\<lambda>i. length s - 1 - i) (indexOf (rev s) c)"

text \<open>
  \<^verbatim>\<open>text.replace(/```json\s*/gi, '')\<close>: scanning from the left, every match of three
  backticks, the letters j, s, o, n in either case and the longest run of white space
  after them is deleted, and the scan goes on behind the match.
\<close>

function replaceJsonFence :: "string \<Rightarrow> string" where
  "replaceJsonFence [] = []"
| "replaceJsonFence (c # cs) =
     (if toLowerCase (take 7 (c # cs)) = ''```json''
      then replaceJsonFence (dropWhile isWhiteSpace (drop 6 cs))
      else c # replaceJsonFence cs)"
  by pat_completeness auto
termination
proof (relation "measure length", goal_cases)
  case 1
  show ?case by simp
next
  case (2 c cs)
  show ?case
    using length_dropWhile_le [of isWhiteSpace "drop 6 cs"] by simp
next
  case (3 c cs)
  show ?case by simp
qed

text \<open>\<^verbatim>\<open>text.replace(/```\s*/g, '')\<close>: the same scan for three backticks and white space.\<close>

function replaceFence :: "string \<Rightarrow> string" where
  "replaceFence [] = []"
| "replaceFence (c # cs) =
     (if take 3 (c # cs) = ''```''
      then replaceFence (dropWhile isWhiteSpace (drop 2 cs))
      else c # replaceFence cs)"
  by pat_completeness auto
termination
proof (relation "measure length", goal_cases)
  case 1
  show ?case by simp
next
  case (2 c cs)
  show ?case
    using length_dropWhile_le [of isWhiteSpace "drop 2 cs"] by simp
next
  case (3 c cs)
  show ?case by simp
qed

subsection \<open>extractJSON\<close>

text \<open>
  The function has a \<^verbatim>\<open>try\<close> around its body; on a string nothing in the body throws,
  so the \<^verbatim>\<open>catch\<close> branch is never taken and is not a branch of the model.
\<close>

definition extractJSON :: "string \<Rightarrow> string" where
  "extractJSON text0 =
     (let text = trim (replaceFence (replaceJsonFence text0));
          jsonStart = indexOf text (CHR ''{'');
          jsonEnd = lastIndexOf text (CHR ''}'')
      in case (jsonStart, jsonEnd) of
           (Some s, Some e) \<Rightarrow>
             if e > s then trim (substring text s (e + 1)) else trim text
         | _ \<Rightarrow> trim text)"

section \<open>JavaScript values\<close>

text \<open>
  The values that \<^verbatim>\<open>JSON.parse\<close> returns and that a property read yields. An object is
  the list of its members in the order of the text; a later member of the same name
  replaces an earlier one. \<open>JNum n\<close> is the Number with the integer value \<open>n\<close>; the model
  covers the integer Numbers of magnitude below \<open>10^21\<close>, which are the ones that
  \<^verbatim>\<open>String\<close> prints in plain decimal notation.
\<close>

datatype js =
    JUndefined
  | JNull
  | JBool bool
  | JNum int
  | JStr string
  | JArr "js list"
  | JObj "(string \<times> js) list"

text \<open>ToBoolean: what \<^verbatim>\<open>||\<close> and \<^verbatim>\<open>!\<close> test.\<close>

fun truthy :: "js \<Rightarrow> bool" where
  "truthy JUndefined = False"
| "truthy JNull = False"
| "truthy (JBool b) = b"
| "truthy (JNum n) = (n \<noteq> 0)"
| "truthy (JStr s) = (s \<noteq> [])"
| "truthy (JArr xs) = True"
| "truthy (JObj ms) = True"

text \<open>\<^verbatim>\<open>a || b\<close>. Its right operand is a property read or a literal here, with no effect.\<close>

definition or_else :: "js \<Rightarrow> js \<Rightarrow> js" where
  "or_else a b = (if truthy a then a else b)"

text \<open>
  The property read \<^verbatim>\<open>v.k\<close> on a value that is neither \<^verbatim>\<open>null\<close> nor
  \<^verbatim>\<open>undefined\<close>, for the names this server reads (status, Status, evidence, Evidence,
  quote, reasoning, Reasoning, reason, confidence, Confidence, score): no built-in
  prototype defines one of them, so the read finds an own member of an object or
  \<^verbatim>\<open>undefined\<close>.
\<close>

fun getProp :: "js \<Rightarrow> string \<Rightarrow> js" where
  "getProp (JObj ms) k = (case map_of (rev ms) k of Some v \<Rightarrow> v | None \<Rightarrow> JUndefined)"
| "getProp v k = JUndefined"

subsection \<open>Numbers as text and text as numbers\<close>

definition digitChar :: "nat \<Rightarrow> char" where
  "digitChar d = ''0123456789'' ! d"

fun digits :: "nat \<Rightarrow> string" where
  "digits n = (if n < 10 then [digitChar n] else digits (n div 10) @ [digitChar (n mod 10)])"

declare digits.simps [simp del]

definition Number_toString :: "int \<Rightarrow> string" where
  "Number_toString n = (if n < 0 then CHR ''-'' # digits (nat (- n)) else digits (nat n))"

fun join :: "string list \<Rightarrow> string" where
  "join [] = []"
| "join [x] = x"
| "join (x # y # ys) = x @ '','' @ join (y # ys)"

text \<open>
  ToString, which \<^verbatim>\<open>String(v)\<close> and \<^verbatim>\<open>parseInt(v)\<close> apply. An array prints its
  elements separated by commas, \<^verbatim>\<open>null\<close> and \<^verbatim>\<open>undefined\<close> elements as nothing.
  An object made by \<^verbatim>\<open>JSON.parse\<close> prints as \<^verbatim>\<open>[object Object]\<close> through the
  \<^verbatim>\<open>toString\<close> it inherits; when it has a member named \<^verbatim>\<open>toString\<close> of its own, that
  member is no function, \<^verbatim>\<open>valueOf\<close> yields no primitive value either, and the
  conversion throws a TypeError: the model answers \<open>None\<close>.
\<close>

fun ToString :: "js \<Rightarrow> string option" where
  "ToString JUndefined = Some ''undefined''"
| "ToString JNull = Some ''null''"
| "ToString (JBool b) = Some (if b then ''true'' else ''false'')"
| "ToString (JNum n) = Some (Number_toString n)"
| "ToString (JStr s) = Some s"
| "ToString (JArr xs) =
     map_option join
       (those (map (\<lambda>x. if x = JNull \<or> x = JUndefined then Some [] else ToString x) xs))"
| "ToString (JObj ms) =
     (if ''toString'' \<in> set (map fst ms) then None else Some ''[object Object]'')"

text \<open>
  A Number as the server's arithmetic sees it: \<^verbatim>\<open>NaN\<close> or an integer. \<^verbatim>\<open>parseInt\<close>
  yields the integer that the digits denote; the rounding of a long digit string to a
  double (or to \<^verbatim>\<open>Infinity\<close>) is monotone and leaves 0 and 100 fixed, so it does not
  change what \<^verbatim>\<open>Math.min(100, Math.max(0, _))\<close> gives and is left out.
\<close>

datatype number = NaN | Num int

text \<open>The value of a digit or letter as a digit, for radix 10 and 16.\<close>

definition digitValue :: "char \<Rightarrow> nat option" where
  "digitValue c = indexOf ''0123456789abcdef'' (lower_char c)"

definition isRadixDigit :: "nat \<Rightarrow> char \<Rightarrow> bool" where
  "isRadixDigit R c = (case digitValue c of None \<Rightarrow> False | Some d \<Rightarrow> d < R)"

definition radixValue :: "nat \<Rightarrow> string \<Rightarrow> nat" where
  "radixValue R Z = foldl (\<lambda>a c. a * R + (case digitValue c of None \<Rightarrow> 0 | Some d \<Rightarrow> d)) 0 Z"

text \<open>
  \<^verbatim>\<open>parseInt(s)\<close> with no radix: skip leading white space, take a sign, take the prefix
  \<^verbatim>\<open>0x\<close> or \<^verbatim>\<open>0X\<close> as radix 16, read the longest run of digits; no digit gives
  \<^verbatim>\<open>NaN\<close>.
\<close>

definition parseInt_string :: "string \<Rightarrow> number" where
  "parseInt_string s =
     (let s1 = dropWhile isWhiteSpace s;
          neg = (take 1 s1 = ''-'');
          s2 = (if take 1 s1 = ''-'' \<or> take 1 s1 = ''+'' then drop 1 s1 else s1);
          hex = (toLowerCase (take 2 s2) = ''0x'');
          R = (if hex then 16 else 10);
          s3 = (if hex then drop 2 s2 else s2);
          Z = takeWhile (isRadixDigit R) s3;
          mathInt = radixValue R Z
      in if Z = [] then NaN else Num (if neg then - int mathInt else int mathInt))"

definition parseInt :: "js \<Rightarrow> number option" where
  "parseInt v = map_option parseInt_string (ToString v)"

fun Math_max :: "number \<Rightarrow> number \<Rightarrow> number" where
  "Math_max (Num a) (Num b) = Num (max a b)"
| "Math_max a b = NaN"

fun Math_min :: "number \<Rightarrow> number \<Rightarrow> number" where
  "Math_min (Num a) (Num b) = Num (min a b)"
| "Math_min a b = NaN"

section \<open>The engine's part\<close>

text \<open>
  These are the JavaScript engine's and not this server's, and are parameters of the
  model: \<^verbatim>\<open>JSON.parse\<close>, which returns a value or throws a SyntaxError (\<open>Inl\<close> of its
  message); the message of the TypeError that a property read on \<^verbatim>\<open>null\<close> or
  \<^verbatim>\<open>undefined\<close> throws (given the value and the property's name); and the message of
  the TypeError that the conversion of an object to a string throws.
\<close>

record engine =
  JSON_parse :: "string \<Rightarrow> string + js"
  cannot_read :: "js \<Rightarrow> string \<Rightarrow> string"
  cannot_convert :: string

section \<open>validateWithLLM\<close>

text \<open>The object that \<^verbatim>\<open>validateWithLLM\<close> returns and the route pushes.\<close>

record verdict =
  rule :: string
  status :: string
  evidence :: string
  reasoning :: string
  confidence :: number

text \<open>Lines 152 to 158: the object returned when \<^verbatim>\<open>JSON.parse\<close> has thrown.\<close>

definition parseErrorResult :: "string \<Rightarrow> string \<Rightarrow> string \<Rightarrow> verdict" where
  "parseErrorResult theRule message content =
     \<lparr>rule = theRule,
      status = ''fail'',
      evidence = ''Unable to parse LLM response'',
      reasoning = ''Parse error: '' @ message @ ''. Raw content: '' @ substring content 0 100,
      confidence = Num 0\<rparr>"

text \<open>
  Lines 162 to 179, for a \<open>result\<close> that is neither \<^verbatim>\<open>null\<close> nor \<^verbatim>\<open>undefined\<close>:
  the fields with their fallbacks, the clamp of the confidence and the check of the
  status. The four conversions to a string (three calls of \<^verbatim>\<open>String\<close> and the one inside
  \<^verbatim>\<open>parseInt\<close>) happen in this order; \<open>None\<close> when one of them throws.
\<close>

definition normalized :: "string \<Rightarrow> js \<Rightarrow> verdict option" where
  "normalized theRule result =
     do {
       statusText \<leftarrow> ToString
         (or_else (or_else (getProp result ''status'') (getProp result ''Status''))
            (JStr ''fail''));
       evidenceText \<leftarrow> ToString
         (or_else (or_else (or_else (getProp result ''evidence'') (getProp result ''Evidence''))
            (getProp result ''quote'')) (JStr ''No evidence provided''));
       reasoningText \<leftarrow> ToString
         (or_else (or_else (or_else (getProp result ''reasoning'') (getProp result ''Reasoning''))
            (getProp result ''reason'')) (JStr ''No reasoning provided''));
       parsed \<leftarrow> parseInt
         (or_else (or_else (or_else (getProp result ''confidence'') (getProp result ''Confidence''))
            (getProp result ''score'')) (JNum 50));
       Some
         (let status0 = toLowerCase statusText;
              evidence0 = substring evidenceText 0 200;
              reasoning0 = substring reasoningText 0 200;
              confidence0 = Math_min (Num 100) (Math_max (Num 0) parsed);
              validStatus = (if status0 = ''pass'' \<or> status0 = ''fail'' then status0 else ''fail'')
          in \<lparr>rule = theRule,
              status = validStatus,
              evidence = evidence0,
              reasoning = reasoning0,
              confidence = confidence0\<rparr>)
     }"

text \<open>
  Names for the four values that lines 162 to 165 read, each the \<^verbatim>\<open>||\<close> chain of its
  field with the default at the end, as they stand in \<open>normalized\<close>.
\<close>

abbreviation statusRaw :: "js \<Rightarrow> js" where
  "statusRaw result \<equiv>
     or_else (or_else (getProp result ''status'') (getProp result ''Status'')) (JStr ''fail'')"

abbreviation evidenceRaw :: "js \<Rightarrow> js" where
  "evidenceRaw result \<equiv>
     or_else (or_else (or_else (getProp result ''evidence'') (getProp result ''Evidence''))
       (getProp result ''quote'')) (JStr ''No evidence provided'')"

abbreviation reasoningRaw :: "js \<Rightarrow> js" where
  "reasoningRaw result \<equiv>
     or_else (or_else (or_else (getProp result ''reasoning'') (getProp result ''Reasoning''))
       (getProp result ''reason'')) (JStr ''No reasoning provided'')"

abbreviation confidenceRaw :: "js \<Rightarrow> js" where
  "confidenceRaw result \<equiv>
     or_else (or_else (or_else (getProp result ''confidence'') (getProp result ''Confidence''))
       (getProp result ''score'')) (JNum 50)"

text \<open>
  Lines 137 to 179, from the reply's content string to the returned object: trim,
  \<^verbatim>\<open>extractJSON\<close>, \<^verbatim>\<open>JSON.parse\<close> with its own \<^verbatim>\<open>catch\<close>, then the fields. The first
  property read, \<^verbatim>\<open>result.status\<close>, throws a TypeError when \<open>result\<close> is \<^verbatim>\<open>null\<close>
  (\<^verbatim>\<open>JSON.parse("null")\<close>); this error and the one of a failed conversion leave the
  normalization (\<open>Inl\<close> of the message).
\<close>

definition normalize :: "engine \<Rightarrow> string \<Rightarrow> string \<Rightarrow> string + verdict" where
  "normalize eng theRule raw =
     (let content = extractJSON (trim raw)
      in case JSON_parse eng content of
           Inl message \<Rightarrow> Inr (parseErrorResult theRule message content)
         | Inr result \<Rightarrow>
             if result = JNull \<or> result = JUndefined
             then Inl (cannot_read eng result ''status'')
             else
               (case normalized theRule result of
                  None \<Rightarrow> Inl (cannot_convert eng)
                | Some v \<Rightarrow> Inr v))"

subsection \<open>The request and its outcome\<close>

text \<open>
  What the request of lines 100 to 121 carries that depends on the input: the key of the
  Authorization header and the user prompt. The system prompt, the model name, the
  temperature and the token limit are constants.
\<close>

record request =
  bearer :: string
  userPrompt :: string

definition buildUserPrompt :: "string \<Rightarrow> string \<Rightarrow> string" where
  "buildUserPrompt pdfText theRule =
     ''Check if this document meets the rule: \"'' @ theRule @
     ''\"\<newline>\<newline>Document text (first 4000 characters):\<newline>'' @ substring pdfText 0 4000 @
     ''\<newline>\<newline>Respond with ONLY the JSON object, no other text.''"

definition buildRequest :: "string \<Rightarrow> string \<Rightarrow> string \<Rightarrow> request" where
  "buildRequest apiKey pdfText theRule =
     \<lparr>bearer = apiKey, userPrompt = buildUserPrompt pdfText theRule\<rparr>"

text \<open>
  What lines 100 to 137 come to, by the branch taken:
  \<^item> \<open>Threw m\<close>: \<^verbatim>\<open>fetch\<close>, \<^verbatim>\<open>response.json()\<close> or a property read of these lines threw
    an error with message \<open>m\<close>;
  \<^item> \<open>NotOk d\<close>: \<^verbatim>\<open>response.ok\<close> is false, and \<open>d\<close> is the text of
    \<^verbatim>\<open>errorData.error?.message || 'Unknown error'\<close>;
  \<^item> \<open>NoChoice\<close>: \<^verbatim>\<open>data.choices\<close> or \<^verbatim>\<open>data.choices[0]\<close> is missing;
  \<^item> \<open>Content c\<close>: \<^verbatim>\<open>data.choices[0].message.content\<close> is the string \<open>c\<close>.

  The network answers a request, given the requests sent before it.
\<close>

datatype completion = Threw string | NotOk string | NoChoice | Content string

type_synonym network = "request list \<Rightarrow> request \<Rightarrow> completion"

text \<open>Lines 180 to 193: the message of the error that the outer \<^verbatim>\<open>catch\<close> throws on.\<close>

definition rethrown :: "string \<Rightarrow> string" where
  "rethrown message =
     (if includes_str message ''401'' then ''Invalid API key''
      else if includes_str message ''429'' then ''Rate limit exceeded''
      else if includes_str message ''quota'' then ''API quota exceeded''
      else message)"

text \<open>
  \<^verbatim>\<open>validateWithLLM(pdfText, rule)\<close>. \<open>apiKey\<close> is \<^verbatim>\<open>process.env.GROQ_API_KEY\<close>
  (\<open>None\<close> when the variable is not set); \<open>sent\<close> lists the requests sent so far, oldest
  first. The result is \<open>Inr\<close> of the returned object or \<open>Inl\<close> of the message of the
  error thrown, with the requests sent by then.
\<close>

definition validateWithLLM ::
  "engine \<Rightarrow> string option \<Rightarrow> network \<Rightarrow> string \<Rightarrow> string \<Rightarrow> request list
     \<Rightarrow> (string + verdict) \<times> request list" where
  "validateWithLLM eng apiKey net pdfText theRule sent =
     (case apiKey of
        None \<Rightarrow> (Inl ''Groq API key not configured in .env file'', sent)
      | Some k \<Rightarrow>
          if k = [] then (Inl ''Groq API key not configured in .env file'', sent)
          else
            let req = buildRequest k pdfText theRule;
                sent' = sent @ [req]
            in case net sent req of
                 Threw m \<Rightarrow> (Inl (rethrown m), sent')
               | NotOk d \<Rightarrow> (Inl (rethrown (''Groq API error: '' @ d)), sent')
               | NoChoice \<Rightarrow> (Inl (rethrown ''Invalid response structure from Groq''), sent')
               | Content c \<Rightarrow>
                   (case normalize eng theRule c of
                      Inl m \<Rightarrow> (Inl (rethrown m), sent')
                    | Inr v \<Rightarrow> (Inr v, sent')))"

section \<open>The loop of the validation route\<close>

text \<open>Lines 231 to 237: the object pushed when \<^verbatim>\<open>validateWithLLM\<close> has thrown.\<close>

definition errorResult :: "string \<Rightarrow> string \<Rightarrow> verdict" where
  "errorResult theRule message =
     \<lparr>rule = theRule,
      status = ''error'',
      evidence = ''N/A'',
      reasoning = message,
      confidence = Num 0\<rparr>"

text \<open>
  Lines 221 to 245: the loop over \<open>parsedRules\<close>, here the rules not yet visited, with
  the \<open>results\<close> pushed so far. The pause between two requests takes time and changes
  nothing else.
\<close>

fun validateRules ::
  "engine \<Rightarrow> string option \<Rightarrow> network \<Rightarrow> string \<Rightarrow> string list \<Rightarrow> verdict list
     \<Rightarrow> request list \<Rightarrow> verdict list \<times> request list" where
  "validateRules eng apiKey net pdfText [] results sent = (results, sent)"
| "validateRules eng apiKey net pdfText (r # rs) results sent =
     (case validateWithLLM eng apiKey net pdfText r sent of
        (Inr result, sent') \<Rightarrow>
          validateRules eng apiKey net pdfText rs (results @ [result]) sent'
      | (Inl message, sent') \<Rightarrow>
          validateRules eng apiKey net pdfText rs (results @ [errorResult r message]) sent')"

text \<open>The requests that a list of rules causes, one for each rule when the key is set.\<close>

definition requestsFor :: "string option \<Rightarrow> string \<Rightarrow> string list \<Rightarrow> request list" where
  "requestsFor apiKey pdfText rs =
     (case apiKey of
        None \<Rightarrow> []
      | Some k \<Rightarrow> if k = [] then [] else map (buildRequest k pdfText) rs)"

section \<open>An engine for ground examples\<close>

text \<open>
  The statements below hold for every engine. Where one is evaluated on a concrete reply,
  it is evaluated with \<open>testEngine\<close>, whose \<^verbatim>\<open>JSON.parse\<close> reads the JSON texts made of
  objects, arrays, strings with the two-character escapes, integer literals of at most
  15 digits (which a double holds exactly), \<^verbatim>\<open>true\<close>, \<^verbatim>\<open>false\<close> and \<^verbatim>\<open>null\<close>. It
  is used on such texts and on texts that are not JSON only: a longer integer, a
  fraction, an exponent or a \<^verbatim>\<open>\u\<close> escape is outside of what it reads.
  Its messages stand for the engine's own wording.
\<close>

definition jsonWs :: "char \<Rightarrow> bool" where
  "jsonWs c = (c = CHR 0x20 \<or> c = CHR 0x09 \<or> c = CHR 0x0A \<or> c = CHR 0x0D)"

definition unescape :: "char \<Rightarrow> char option" where
  "unescape e =
     (if e = CHR 0x22 then Some (CHR 0x22)
      else if e = CHR 0x5C then Some (CHR 0x5C)
      else if e = CHR ''/'' then Some (CHR ''/'')
      else if e = CHR ''b'' then Some (CHR 0x08)
      else if e = CHR ''f'' then Some (CHR 0x0C)
      else if e = CHR ''n'' then Some (CHR 0x0A)
      else if e = CHR ''r'' then Some (CHR 0x0D)
      else if e = CHR ''t'' then Some (CHR 0x09)
      else None)"

text \<open>The characters of a string literal behind its opening quote, and the rest of the text.\<close>

fun parseChars :: "string \<Rightarrow> (string \<times> string) option" where
  "parseChars [] = None"
| "parseChars (c # cs) =
     (if c = CHR 0x22 then Some ([], cs)
      else if c = CHR 0x5C then
        (case cs of
           [] \<Rightarrow> None
         | e # r \<Rightarrow>
             (case unescape e of
                None \<Rightarrow> None
              | Some x \<Rightarrow> map_option (apfst ((#) x)) (parseChars r)))
      else if (of_char c :: nat) < 32 then None
      else map_option (apfst ((#) c)) (parseChars cs))"

text \<open>An integer literal: an optional minus sign, then 0 or a digit string with no leading 0.\<close>

definition parseInteger :: "string \<Rightarrow> (js \<times> string) option" where
  "parseInteger s =
     (let neg = (take 1 s = ''-'');
          s1 = (if neg then drop 1 s else s);
          Z = (if take 1 s1 = ''0'' then ''0'' else takeWhile (isRadixDigit 10) s1);
          r = drop (length Z) s1;
          n = int (radixValue 10 Z)
      in if Z = [] \<or> take 1 r = ''.'' \<or> take 1 r = ''e'' \<or> take 1 r = ''E'' then None
         else Some (JNum (if neg then - n else n), r))"

fun parseValue :: "nat \<Rightarrow> string \<Rightarrow> (js \<times> string) option"
  and parseElements :: "nat \<Rightarrow> js list \<Rightarrow> string \<Rightarrow> (js \<times> string) option"
  and parseMembers :: "nat \<Rightarrow> (string \<times> js) list \<Rightarrow> string \<Rightarrow> (js \<times> string) option" where
  "parseValue 0 s = None"
| "parseValue (Suc f) s =
     (case dropWhile jsonWs s of
        [] \<Rightarrow> None
      | c # cs \<Rightarrow>
          if c = CHR ''{'' then
            (if take 1 (dropWhile jsonWs cs) = ''}''
             then Some (JObj [], drop 1 (dropWhile jsonWs cs))
             else parseMembers f [] cs)
          else if c = CHR ''['' then
            (if take 1 (dropWhile jsonWs cs) = '']''
             then Some (JArr [], drop 1 (dropWhile jsonWs cs))
             else parseElements f [] cs)
          else if c = CHR 0x22 then map_option (apfst JStr) (parseChars cs)
          else if take 4 (c # cs) = ''true'' then Some (JBool True, drop 4 (c # cs))
          else if take 5 (c # cs) = ''false'' then Some (JBool False, drop 5 (c # cs))
          else if take 4 (c # cs) = ''null'' then Some (JNull, drop 4 (c # cs))
          else parseInteger (c # cs))"
| "parseElements 0 acc s = None"
| "parseElements (Suc f) acc s =
     (case parseValue f s of
        None \<Rightarrow> None
      | Some (v, r) \<Rightarrow>
          if take 1 (dropWhile jsonWs r) = '','' then
            parseElements f (acc @ [v]) (drop 1 (dropWhile jsonWs r))
          else if take 1 (dropWhile jsonWs r) = '']'' then
            Some (JArr (acc @ [v]), drop 1 (dropWhile jsonWs r))
          else None)"
| "parseMembers 0 acc s = None"
| "parseMembers (Suc f) acc s =
     (if take 1 (dropWhile jsonWs s) = [CHR 0x22] then
        (case parseChars (drop 1 (dropWhile jsonWs s)) of
           None \<Rightarrow> None
         | Some (k, r1) \<Rightarrow>
             if take 1 (dropWhile jsonWs r1) = '':'' then
               (case parseValue f (drop 1 (dropWhile jsonWs r1)) of
                  None \<Rightarrow> None
                | Some (v, r2) \<Rightarrow>
                    if take 1 (dropWhile jsonWs r2) = '','' then
                      parseMembers f (acc @ [(k, v)]) (drop 1 (dropWhile jsonWs r2))
                    else if take 1 (dropWhile jsonWs r2) = ''}'' then
                      Some (JObj (acc @ [(k, v)]), drop 1 (dropWhile jsonWs r2))
                    else None)
             else None)
      else None)"

definition testParse :: "string \<Rightarrow> string + js" where
  "testParse s =
     (case parseValue (Suc (length s)) s of
        None \<Rightarrow> Inl ''Unexpected token in JSON''
      | Some (v, r) \<Rightarrow>
          if dropWhile jsonWs r = [] then Inr v else Inl ''Unexpected token in JSON'')"

definition testEngine :: engine where
  "testEngine =
     \<lparr>JSON_parse = testParse,
      cannot_read =
        (\<lambda>v k. ''Cannot read properties of '' @ (if v = JNull then ''null'' else ''undefined'') @
           '' (reading '' @ [CHR 0x27] @ k @ [CHR 0x27] @ '')''),
      cannot_convert = ''Cannot convert object to primitive value''\<rparr>"


section \<open>Lemmas\<close>

subsection \<open>The loop\<close>

lemma requestsFor_append:
  "requestsFor apiKey pdfText (xs @ ys) = requestsFor apiKey pdfText xs @ requestsFor apiKey pdfText ys"
  by (simp add: requestsFor_def split: option.splits)

lemma validateWithLLM_sent:
  "snd (validateWithLLM eng apiKey net pdfText r sent) = sent @ requestsFor apiKey pdfText [r]"
  by (simp add: validateWithLLM_def requestsFor_def Let_def
        split: option.splits completion.splits sum.splits)

lemma normalized_rule: "normalized r result = Some v \<Longrightarrow> rule v = r"
  by (auto simp: normalized_def Let_def split: Option.bind_splits)

lemma normalize_rule: "normalize eng r raw = Inr v \<Longrightarrow> rule v = r"
  by (auto simp: normalize_def Let_def parseErrorResult_def dest: normalized_rule
        split: sum.splits if_splits option.splits)

lemma validateWithLLM_rule:
  "validateWithLLM eng apiKey net pdfText r sent = (Inr v, sent') \<Longrightarrow> rule v = r"
  by (auto simp: validateWithLLM_def Let_def dest: normalize_rule split: option.splits completion.splits sum.splits if_splits)

lemma validateRules_results:
  "validateRules eng apiKey net pdfText rs results sent =
     (results @ fst (validateRules eng apiKey net pdfText rs [] sent),
      snd (validateRules eng apiKey net pdfText rs [] sent))"
proof (induction rs arbitrary: results sent)
  case Nil
  show ?case by simp
next
  case (Cons r rs)
  obtain res sent' where w: "validateWithLLM eng apiKey net pdfText r sent = (res, sent')"
    by (cases "validateWithLLM eng apiKey net pdfText r sent")
  show ?case
  proof (cases res)
    case (Inl m)
    with w Cons.IH [of "results @ [errorResult r m]" sent'] Cons.IH [of "[errorResult r m]" sent']
    show ?thesis by simp
  next
    case (Inr v)
    with w Cons.IH [of "results @ [v]" sent'] Cons.IH [of "[v]" sent']
    show ?thesis by simp
  qed
qed

lemma validateRules_Cons:
  "validateRules eng apiKey net pdfText (r # rs) [] sent =
     ((case fst (validateWithLLM eng apiKey net pdfText r sent) of
         Inl message \<Rightarrow> errorResult r message
       | Inr result \<Rightarrow> result) #
        fst (validateRules eng apiKey net pdfText rs [] (sent @ requestsFor apiKey pdfText [r])),
      snd (validateRules eng apiKey net pdfText rs [] (sent @ requestsFor apiKey pdfText [r])))"
proof -
  obtain res sent' where w: "validateWithLLM eng apiKey net pdfText r sent = (res, sent')"
    by (cases "validateWithLLM eng apiKey net pdfText r sent")
  have s: "sent' = sent @ requestsFor apiKey pdfText [r]"
    using validateWithLLM_sent [of eng apiKey net pdfText r sent] w by simp
  show ?thesis
  proof (cases res)
    case (Inl m)
    with w s validateRules_results [of eng apiKey net pdfText rs "[errorResult r m]" sent']
    show ?thesis by simp
  next
    case (Inr v)
    with w s validateRules_results [of eng apiKey net pdfText rs "[v]" sent']
    show ?thesis by simp
  qed
qed

lemma validateRules_length:
  "length (fst (validateRules eng apiKey net pdfText rs [] sent)) = length rs"
  by (induction rs arbitrary: sent) (simp_all add: validateRules_Cons del: validateRules.simps(2))

lemma validateRules_snd:
  "snd (validateRules eng apiKey net pdfText rs [] sent) = sent @ requestsFor apiKey pdfText rs"
proof (induction rs arbitrary: sent)
  case Nil
  show ?case by (simp add: requestsFor_def split: option.splits)
next
  case (Cons r rs)
  have "requestsFor apiKey pdfText (r # rs) = requestsFor apiKey pdfText [r] @ requestsFor apiKey pdfText rs"
    using requestsFor_append [of apiKey pdfText "[r]" rs] by simp
  with Cons.IH show ?case
    by (simp add: validateRules_Cons del: validateRules.simps(2))
qed

lemma validateRules_nth:
  "i < length rs \<Longrightarrow>
   fst (validateRules eng apiKey net pdfText rs [] sent) ! i =
     (case fst (validateWithLLM eng apiKey net pdfText (rs ! i)
              (sent @ requestsFor apiKey pdfText (take i rs))) of
        Inl message \<Rightarrow> errorResult (rs ! i) message
      | Inr result \<Rightarrow> result)"
proof (induction rs arbitrary: i sent)
  case Nil
  then show ?case by simp
next
  case (Cons r rs)
  show ?case
  proof (cases i)
    case 0
    have "requestsFor apiKey pdfText [] = []"
      by (simp add: requestsFor_def split: option.splits)
    then show ?thesis
      unfolding 0 by (simp add: validateRules_Cons del: validateRules.simps(2) split: sum.splits)
  next
    case (Suc j)
    have "requestsFor apiKey pdfText (r # take j rs) =
            requestsFor apiKey pdfText [r] @ requestsFor apiKey pdfText (take j rs)"
      using requestsFor_append [of apiKey pdfText "[r]" "take j rs"] by simp
    with Cons.prems Cons.IH [of j "sent @ requestsFor apiKey pdfText [r]"]
    show ?thesis
      unfolding Suc by (simp add: validateRules_Cons del: validateRules.simps(2) split: sum.splits)
  qed
qed

subsection \<open>Decimal digits and parseInt\<close>

lemma digitChar_cases:
  "d < 10 \<Longrightarrow> digitChar d \<in> set ''0123456789''"
proof -
  assume "d < 10"
  then have "d \<in> {0, 1, 2, 3, 4, 5, 6, 7, 8, 9}" by auto
  then show ?thesis by (auto simp: digitChar_def)
qed

lemma digitValue_digitChar: "d < 10 \<Longrightarrow> digitValue (digitChar d) = Some d"
proof -
  assume "d < 10"
  then have "d \<in> {0, 1, 2, 3, 4, 5, 6, 7, 8, 9}" by auto
  then show ?thesis
    by (elim insertE emptyE; simp add: digitChar_def digitValue_def isUpper_def)
qed

lemma digit_props:
  "c \<in> set ''0123456789'' \<Longrightarrow>
     \<not> isWhiteSpace c \<and> c \<noteq> CHR ''-'' \<and> c \<noteq> CHR ''+'' \<and> isRadixDigit 10 c \<and>
     lower_char c \<noteq> CHR ''x''"
  by (auto simp: isWhiteSpace_def isRadixDigit_def digitValue_def isUpper_def)


lemma digits_set: "set (digits n) \<subseteq> set ''0123456789''"
proof (induction n rule: digits.induct)
  case (1 n)
  show ?case
  proof (cases "n < 10")
    case True
    then show ?thesis
      using digitChar_cases [of n] by (subst digits.simps) simp
  next
    case False
    then show ?thesis
      using 1 digitChar_cases [of "n mod 10"] by (subst digits.simps) simp
  qed
qed

lemma digits_nonempty: "digits n \<noteq> []"
  by (subst digits.simps) simp

lemma radixValue_digits: "radixValue 10 (digits n) = n"
proof (induction n rule: digits.induct)
  case (1 n)
  show ?case
  proof (cases "n < 10")
    case True
    then show ?thesis
      by (subst digits.simps) (simp add: radixValue_def digitValue_digitChar)
  next
    case False
    then have "radixValue 10 (digits (n div 10)) = n div 10" using 1 by simp
    then show ?thesis
      using False
      by (subst digits.simps) (simp add: radixValue_def digitValue_digitChar)
  qed
qed

lemma parseInt_string_digits: "parseInt_string (digits n) = Num (int n)"
proof -
  let ?Z = "digits n"
  have all: "\<forall>c\<in>set ?Z. c \<in> set ''0123456789''" using digits_set [of n] by blast
  obtain c cs where Z: "?Z = c # cs" using digits_nonempty [of n] by (cases ?Z) auto
  have c: "c \<in> set ''0123456789''" using all Z by simp
  have ws: "dropWhile isWhiteSpace ?Z = ?Z" using Z c digit_props [of c] by simp
  have sign: "take 1 ?Z \<noteq> ''-''" "take 1 ?Z \<noteq> ''+''" using Z c digit_props [of c] by auto
  have hex: "toLowerCase (take 2 ?Z) \<noteq> ''0x''"
  proof (cases cs)
    case Nil
    then show ?thesis using Z by (simp add: toLowerCase_def)
  next
    case (Cons d ds)
    then have "d \<in> set ''0123456789''" using all Z by simp
    then show ?thesis using Z Cons digit_props [of d] by (simp add: toLowerCase_def)
  qed
  have tw: "takeWhile (isRadixDigit 10) ?Z = ?Z"
    using all digit_props by (intro takeWhile_eq_all_conv [THEN iffD2]) blast
  show ?thesis
    using ws sign hex tw digits_nonempty [of n] radixValue_digits [of n]
    by (simp add: parseInt_string_def Let_def radixValue_def del: takeWhile_eq_all_conv)
qed

lemma parseInt_string_neg: "0 < n \<Longrightarrow> parseInt_string (CHR ''-'' # digits n) = Num (- int n)"
proof -
  assume n: "0 < n"
  let ?Z = "digits n"
  have all: "\<forall>c\<in>set ?Z. c \<in> set ''0123456789''" using digits_set [of n] by blast
  obtain c cs where Z: "?Z = c # cs" using digits_nonempty [of n] by (cases ?Z) auto
  have hex: "toLowerCase (take 2 ?Z) \<noteq> ''0x''"
  proof (cases cs)
    case Nil
    then show ?thesis using Z by (simp add: toLowerCase_def)
  next
    case (Cons d ds)
    then have "d \<in> set ''0123456789''" using all Z by simp
    then show ?thesis using Z Cons digit_props [of d] by (simp add: toLowerCase_def)
  qed
  have tw: "takeWhile (isRadixDigit 10) ?Z = ?Z"
    using all digit_props by (intro takeWhile_eq_all_conv [THEN iffD2]) blast
  have ws: "\<not> isWhiteSpace (CHR ''-'')" by (simp add: isWhiteSpace_def)
  show ?thesis
    using ws hex tw digits_nonempty [of n] radixValue_digits [of n]
    by (simp add: parseInt_string_def Let_def radixValue_def del: takeWhile_eq_all_conv)
qed

lemma parseInt_JNum: "parseInt (JNum n) = Some (Num n)"
proof (cases "n < 0")
  case True
  then show ?thesis
    using parseInt_string_neg [of "nat (- n)"]
    by (simp add: parseInt_def Number_toString_def)
next
  case False
  then show ?thesis
    using parseInt_string_digits [of "nat n"]
    by (simp add: parseInt_def Number_toString_def)
qed

subsection \<open>Fences around an object\<close>

text \<open>
  A closing brace is a barrier for both replacements: it is no part of a fence and it is
  no white space, so no match reaches across it.
\<close>

lemma dropWhile_append_last:
  "xs \<noteq> [] \<Longrightarrow> \<not> P (last xs) \<Longrightarrow> dropWhile P (xs @ ys) = dropWhile P xs @ ys"
  using dropWhile_append1 [of "last xs" xs P ys] by simp

lemma dropWhile_keeps_last:
  "xs \<noteq> [] \<Longrightarrow> \<not> P (last xs) \<Longrightarrow> dropWhile P xs \<noteq> [] \<and> last (dropWhile P xs) = last xs"
  by (induction xs) (auto split: if_splits)

lemma lower_char_brace: "lower_char (CHR ''}'') = CHR ''}''"
  by (simp add: isUpper_def)

lemma toLowerCase_mem: "x \<in> set u \<Longrightarrow> lower_char x \<in> set (toLowerCase u)"
  by (simp add: toLowerCase_def)

lemma json_fence_no_brace: "CHR ''}'' \<in> set u \<Longrightarrow> toLowerCase u \<noteq> ''```json''"
proof
  assume "CHR ''}'' \<in> set u" and eq: "toLowerCase u = ''```json''"
  from \<open>CHR ''}'' \<in> set u\<close> have "lower_char (CHR ''}'') \<in> set (toLowerCase u)"
    by (rule toLowerCase_mem)
  then show False unfolding eq lower_char_brace by simp
qed

lemma fence_no_brace: "CHR ''}'' \<in> set u \<Longrightarrow> u \<noteq> ''```''"
  by auto

lemma json_fence_length: "toLowerCase u = ''```json'' \<Longrightarrow> length u = 7"
proof -
  assume "toLowerCase u = ''```json''"
  then have "length (toLowerCase u) = length ''```json''" by simp
  then show ?thesis by (simp add: toLowerCase_def)
qed

lemma take_append_short:
  "t \<noteq> [] \<Longrightarrow> length t < n \<Longrightarrow> last t \<in> set (take n (t @ suf))"
  by simp

lemma json_fence_at_append:
  assumes "t \<noteq> []" and "last t = CHR ''}''"
  shows "(toLowerCase (take 7 (t @ suf)) = ''```json'') = (toLowerCase (take 7 t) = ''```json'')"
proof (cases "7 \<le> length t")
  case True
  then show ?thesis by simp
next
  case False
  then have short: "length t < 7" by simp
  have "CHR ''}'' \<in> set (take 7 (t @ suf))"
    using take_append_short [OF assms(1) short, of suf] assms(2) by simp
  then have l: "toLowerCase (take 7 (t @ suf)) \<noteq> ''```json''" by (rule json_fence_no_brace)
  have r: "toLowerCase (take 7 t) \<noteq> ''```json''"
    using json_fence_length [of "take 7 t"] short by auto
  from l r show ?thesis by simp
qed

lemma fence_at_append:
  assumes "t \<noteq> []" and "last t = CHR ''}''"
  shows "(take 3 (t @ suf) = ''```'') = (take 3 t = ''```'')"
proof (cases "3 \<le> length t")
  case True
  then show ?thesis by simp
next
  case False
  then have short: "length t < 3" by simp
  have "CHR ''}'' \<in> set (take 3 (t @ suf))"
    using take_append_short [OF assms(1) short, of suf] assms(2) by simp
  then have l: "take 3 (t @ suf) \<noteq> ''```''" by (rule fence_no_brace)
  have "length (take 3 t) < 3" using short by simp
  then have r: "take 3 t \<noteq> ''```''" by auto
  from l r show ?thesis by simp
qed

lemma behind_json_fence:
  assumes "t \<noteq> []" and "last t = CHR ''}''" and m: "toLowerCase (take 7 t) = ''```json''"
  shows "7 \<le> length t \<and> drop 7 t \<noteq> [] \<and> last (drop 7 t) = CHR ''}''"
proof -
  have len: "7 \<le> length t" using json_fence_length [OF m] by simp
  have ne: "drop 7 t \<noteq> []"
  proof
    assume "drop 7 t = []"
    then have "take 7 t = t" by simp
    then have "CHR ''}'' \<in> set (take 7 t)" using assms(1,2) last_in_set [of t] by simp
    then show False using json_fence_no_brace m by blast
  qed
  then have "last (drop 7 t) = last t" by (simp add: last_drop)
  with len ne assms(2) show ?thesis by simp
qed

lemma behind_fence:
  assumes "t \<noteq> []" and "last t = CHR ''}''" and m: "take 3 t = ''```''"
  shows "3 \<le> length t \<and> drop 3 t \<noteq> [] \<and> last (drop 3 t) = CHR ''}''"
proof -
  have "length (take 3 t) = 3" using m by simp
  then have len: "3 \<le> length t" by simp
  have ne: "drop 3 t \<noteq> []"
  proof
    assume "drop 3 t = []"
    then have "take 3 t = t" by simp
    then have "CHR ''}'' \<in> set (take 3 t)" using assms(1,2) last_in_set [of t] by simp
    then show False using fence_no_brace m by blast
  qed
  then have "last (drop 3 t) = last t" by (simp add: last_drop)
  with len ne assms(2) show ?thesis by simp
qed

declare replaceJsonFence.simps(2) [simp del] replaceFence.simps(2) [simp del]

lemma brace_not_space: "\<not> isWhiteSpace (CHR ''}'')"
  by (simp add: isWhiteSpace_def)

lemma replaceJsonFence_barrier:
  "t \<noteq> [] \<Longrightarrow> last t = CHR ''}'' \<Longrightarrow>
     replaceJsonFence (t @ suf) = replaceJsonFence t @ replaceJsonFence suf \<and>
     replaceJsonFence t \<noteq> [] \<and> last (replaceJsonFence t) = CHR ''}''"
proof (induction t rule: replaceJsonFence.induct)
  case 1
  then show ?case by simp
next
  case (2 c cs)
  let ?t = "c # cs"
  have ne: "?t \<noteq> []" by simp
  have eq: "(toLowerCase (take 7 (c # (cs @ suf))) = ''```json'') = (toLowerCase (take 7 ?t) = ''```json'')"
    using json_fence_at_append [OF ne "2.prems"(2), of suf] by (simp only: append_Cons)
  show ?case
  proof (cases "toLowerCase (take 7 ?t) = ''```json''")
    case True
    let ?r = "drop 6 cs"
    have b: "7 \<le> length ?t \<and> drop 7 ?t \<noteq> [] \<and> last (drop 7 ?t) = CHR ''}''"
      using behind_json_fence [OF ne "2.prems"(2) True] .
    then have r: "?r \<noteq> []" "last ?r = CHR ''}''" and len: "6 \<le> length cs" by simp_all
    have d1: "drop 6 (cs @ suf) = ?r @ suf" using len by simp
    have d2: "dropWhile isWhiteSpace (?r @ suf) = dropWhile isWhiteSpace ?r @ suf"
      using dropWhile_append_last [OF r(1)] r(2) brace_not_space by simp
    have d3: "dropWhile isWhiteSpace ?r \<noteq> []" "last (dropWhile isWhiteSpace ?r) = CHR ''}''"
      using dropWhile_keeps_last [OF r(1), of isWhiteSpace] r(2) brace_not_space by simp_all
    note IH = "2.IH"(1) [OF True d3]
    have lhs: "replaceJsonFence (?t @ suf) = replaceJsonFence (dropWhile isWhiteSpace ?r @ suf)"
    proof -
      from eq True have m: "toLowerCase (take 7 (c # (cs @ suf))) = ''```json''" by blast
      have "replaceJsonFence (c # (cs @ suf)) =
              replaceJsonFence (dropWhile isWhiteSpace (drop 6 (cs @ suf)))"
        by (subst replaceJsonFence.simps(2)) (simp only: m if_True simp_thms)
      then show ?thesis using d1 d2 by simp
    qed
    have rhs: "replaceJsonFence ?t = replaceJsonFence (dropWhile isWhiteSpace ?r)"
      by (subst replaceJsonFence.simps(2)) (simp only: True if_True simp_thms)
    show ?thesis using lhs rhs IH by simp
  next
    case False
    have lhs: "replaceJsonFence (?t @ suf) = c # replaceJsonFence (cs @ suf)"
    proof -
      from eq False have m: "toLowerCase (take 7 (c # (cs @ suf))) \<noteq> ''```json''" by blast
      have "replaceJsonFence (c # (cs @ suf)) = c # replaceJsonFence (cs @ suf)"
        by (subst replaceJsonFence.simps(2)) (simp only: m if_False)
      then show ?thesis by simp
    qed
    have rhs: "replaceJsonFence ?t = c # replaceJsonFence cs"
      by (subst replaceJsonFence.simps(2)) (simp only: False if_False)
    show ?thesis
    proof (cases "cs = []")
      case True
      then show ?thesis using lhs rhs "2.prems" by simp
    next
      case cs: False
      then have "last cs = CHR ''}''" using "2.prems" by simp
      from "2.IH"(2) [OF False cs this] lhs rhs show ?thesis by simp
    qed
  qed
qed

lemma replaceFence_barrier:
  "t \<noteq> [] \<Longrightarrow> last t = CHR ''}'' \<Longrightarrow>
     replaceFence (t @ suf) = replaceFence t @ replaceFence suf \<and>
     replaceFence t \<noteq> [] \<and> last (replaceFence t) = CHR ''}''"
proof (induction t rule: replaceFence.induct)
  case 1
  then show ?case by simp
next
  case (2 c cs)
  let ?t = "c # cs"
  have ne: "?t \<noteq> []" by simp
  have eq: "(take 3 (c # (cs @ suf)) = ''```'') = (take 3 ?t = ''```'')"
    using fence_at_append [OF ne "2.prems"(2), of suf] by (simp only: append_Cons)
  show ?case
  proof (cases "take 3 ?t = ''```''")
    case True
    let ?r = "drop 2 cs"
    have b: "3 \<le> length ?t \<and> drop 3 ?t \<noteq> [] \<and> last (drop 3 ?t) = CHR ''}''"
      using behind_fence [OF ne "2.prems"(2) True] .
    then have r: "?r \<noteq> []" "last ?r = CHR ''}''" and len: "2 \<le> length cs" by simp_all
    have d1: "drop 2 (cs @ suf) = ?r @ suf" using len by simp
    have d2: "dropWhile isWhiteSpace (?r @ suf) = dropWhile isWhiteSpace ?r @ suf"
      using dropWhile_append_last [OF r(1)] r(2) brace_not_space by simp
    have d3: "dropWhile isWhiteSpace ?r \<noteq> []" "last (dropWhile isWhiteSpace ?r) = CHR ''}''"
      using dropWhile_keeps_last [OF r(1), of isWhiteSpace] r(2) brace_not_space by simp_all
    note IH = "2.IH"(1) [OF True d3]
    have lhs: "replaceFence (?t @ suf) = replaceFence (dropWhile isWhiteSpace ?r @ suf)"
    proof -
      from eq True have m: "take 3 (c # (cs @ suf)) = ''```''" by blast
      have "replaceFence (c # (cs @ suf)) =
              replaceFence (dropWhile isWhiteSpace (drop 2 (cs @ suf)))"
        by (subst replaceFence.simps(2)) (simp only: m if_True simp_thms)
      then show ?thesis using d1 d2 by simp
    qed
    have rhs: "replaceFence ?t = replaceFence (dropWhile isWhiteSpace ?r)"
      by (subst replaceFence.simps(2)) (simp only: True if_True simp_thms)
    show ?thesis using lhs rhs IH by simp
  next
    case False
    have lhs: "replaceFence (?t @ suf) = c # replaceFence (cs @ suf)"
    proof -
      from eq False have m: "take 3 (c # (cs @ suf)) \<noteq> ''```''" by blast
      have "replaceFence (c # (cs @ suf)) = c # replaceFence (cs @ suf)"
        by (subst replaceFence.simps(2)) (simp only: m if_False)
      then show ?thesis by simp
    qed
    have rhs: "replaceFence ?t = c # replaceFence cs"
      by (subst replaceFence.simps(2)) (simp only: False if_False)
    show ?thesis
    proof (cases "cs = []")
      case True
      then show ?thesis using lhs rhs "2.prems" by simp
    next
      case cs: False
      then have "last cs = CHR ''}''" using "2.prems" by simp
      from "2.IH"(2) [OF False cs this] lhs rhs show ?thesis by simp
    qed
  qed
qed

lemma trim_id: "s \<noteq> [] \<Longrightarrow> \<not> isWhiteSpace (hd s) \<Longrightarrow> \<not> isWhiteSpace (last s) \<Longrightarrow> trim s = s"
proof -
  assume s: "s \<noteq> []" and h: "\<not> isWhiteSpace (hd s)" and l: "\<not> isWhiteSpace (last s)"
  from s h have a: "dropWhile isWhiteSpace s = s" by (cases s) simp_all
  from s l have b: "dropWhile isWhiteSpace (rev s) = rev s"
    by (cases "rev s") (simp_all add: last_rev [symmetric] hd_rev)
  show ?thesis by (simp add: trim_def a b)
qed

lemma trim_trailing_space:
  assumes "v \<noteq> []" and "\<not> isWhiteSpace (last v)" and "\<forall>c\<in>set w. isWhiteSpace c"
  shows "trim (v @ w) = trim v"
proof -
  have a: "dropWhile isWhiteSpace (v @ w) = dropWhile isWhiteSpace v @ w"
    using dropWhile_append_last [of v isWhiteSpace w] assms(1,2) by simp
  have b: "dropWhile isWhiteSpace (rev w @ rev (dropWhile isWhiteSpace v)) =
             dropWhile isWhiteSpace (rev (dropWhile isWhiteSpace v))"
    using assms(3) by (intro dropWhile_append2) simp
  show ?thesis by (simp add: trim_def a b)
qed

lemma space_lower: "isWhiteSpace c \<Longrightarrow> lower_char c \<noteq> CHR 0x60"
  unfolding isWhiteSpace_def by (elim disjE; simp add: isUpper_def)

lemma space_not_backtick: "isWhiteSpace c \<Longrightarrow> c \<noteq> CHR 0x60"
  unfolding isWhiteSpace_def by (elim disjE; simp)

lemma replaceJsonFence_closing:
  "\<forall>c\<in>set w. isWhiteSpace c \<Longrightarrow> replaceJsonFence (w @ ''```'') = w @ ''```''"
proof (induction w)
  case Nil
  show ?case by (simp add: replaceJsonFence.simps(2) toLowerCase_def)
next
  case (Cons c w)
  then have "lower_char c \<noteq> CHR 0x60" using space_lower by simp
  then have m: "toLowerCase (take 7 (c # (w @ ''```''))) \<noteq> ''```json''"
    by (simp add: toLowerCase_def)
  have "replaceJsonFence (c # (w @ ''```'')) = c # replaceJsonFence (w @ ''```'')"
    by (subst replaceJsonFence.simps(2)) (simp only: m if_False)
  with Cons show ?case by simp
qed

lemma replaceFence_closing:
  "\<forall>c\<in>set w. isWhiteSpace c \<Longrightarrow> replaceFence (w @ ''```'') = w"
proof (induction w)
  case Nil
  show ?case by (simp add: replaceFence.simps(2))
next
  case (Cons c w)
  then have "c \<noteq> CHR 0x60" using space_not_backtick by simp
  then have m: "take 3 (c # (w @ ''```'')) \<noteq> ''```''" by simp
  have "replaceFence (c # (w @ ''```'')) = c # replaceFence (w @ ''```'')"
    by (subst replaceFence.simps(2)) (simp only: m if_False)
  with Cons show ?case by simp
qed

lemma replaceJsonFence_opening:
  assumes "t \<noteq> []" and "hd t = CHR ''{''" and "\<forall>c\<in>set w. isWhiteSpace c"
  shows "replaceJsonFence (''```json'' @ w @ t @ rest) = replaceJsonFence (t @ rest)"
proof -
  have nb: "\<not> isWhiteSpace (CHR ''{'')" by (simp add: isWhiteSpace_def)
  have "dropWhile isWhiteSpace (w @ (t @ rest)) = dropWhile isWhiteSpace (t @ rest)"
    using assms(3) by (intro dropWhile_append2) simp
  also have "\<dots> = t @ rest" using assms(1,2) nb by (cases t) simp_all
  finally have d: "dropWhile isWhiteSpace (w @ t @ rest) = t @ rest" .
  show ?thesis
    by (simp add: replaceJsonFence.simps(2) [of "CHR 0x60"] toLowerCase_def isUpper_def d)
qed

lemma extractJSON_fenced:
  assumes t: "t \<noteq> []" "hd t = CHR ''{''" "last t = CHR ''}''"
    and w1: "\<forall>c\<in>set w1. isWhiteSpace c" and w2: "\<forall>c\<in>set w2. isWhiteSpace c"
  shows "extractJSON (trim (''```json'' @ w1 @ t @ w2 @ ''```'')) = extractJSON (trim t)"
proof -
  let ?F = "''```json'' @ w1 @ t @ w2 @ ''```''"
  have bt: "\<not> isWhiteSpace (CHR 0x60)" by (simp add: isWhiteSpace_def)
  have "?F \<noteq> []" "hd ?F = CHR 0x60" "last ?F = CHR 0x60" by simp_all
  then have trimF: "trim ?F = ?F" using bt trim_id [of ?F] by simp
  have trimt: "trim t = t"
    using t trim_id [of t] by (simp add: isWhiteSpace_def)
  have j: "replaceJsonFence ?F = replaceJsonFence t @ w2 @ ''```''"
    using replaceJsonFence_opening [OF t(1,2) w1, of "w2 @ ''```''"]
      replaceJsonFence_barrier [OF t(1,3), of "w2 @ ''```''"]
      replaceJsonFence_closing [OF w2]
    by simp
  let ?u = "replaceJsonFence t"
  have u: "?u \<noteq> []" "last ?u = CHR ''}''"
    using replaceJsonFence_barrier [OF t(1,3), of "[]"] by simp_all
  have f: "replaceFence (?u @ w2 @ ''```'') = replaceFence ?u @ w2"
    using replaceFence_barrier [OF u, of "w2 @ ''```''"] replaceFence_closing [OF w2] by simp
  let ?v = "replaceFence ?u"
  have v: "?v \<noteq> []" "last ?v = CHR ''}''"
    using replaceFence_barrier [OF u, of "[]"] by simp_all
  have "trim (?v @ w2) = trim ?v"
    using trim_trailing_space [OF v(1) _ w2] v(2) brace_not_space by simp
  then have "trim (replaceFence (replaceJsonFence ?F)) = trim (replaceFence (replaceJsonFence t))"
    using j f by simp
  then have "extractJSON ?F = extractJSON t"
    by (simp only: extractJSON_def)
  then show ?thesis by (simp only: trimF trimt)
qed

subsection \<open>A reply without fences\<close>

text \<open>
  A text from an opening brace to a closing brace that holds no three backticks in a row
  passes \<^verbatim>\<open>trim\<close> and \<^verbatim>\<open>extractJSON\<close> unchanged.
\<close>

lemma lower_char_backtick: "lower_char x = CHR 0x60 \<Longrightarrow> x = CHR 0x60"
  by (cases x) (auto simp: isUpper_def of_bool_def split: if_splits)

lemma json_fence_is_fence: "toLowerCase u = ''```json'' \<Longrightarrow> take 3 u = ''```''"
  by (auto simp: toLowerCase_def map_eq_Cons_conv dest!: lower_char_backtick)

lemma replaceFence_plain: "\<not> includes_str s ''```'' \<Longrightarrow> replaceFence s = s"
proof (induction s)
  case Nil
  show ?case by simp
next
  case (Cons c cs)
  have l3: "length ''```'' = 3" by simp
  note p = Cons.prems [unfolded includes_str.simps(2) l3]
  from p have m: "take 3 (c # cs) \<noteq> ''```''" and r: "\<not> includes_str cs ''```''"
    by blast+
  have "replaceFence (c # cs) = c # replaceFence cs"
    by (subst replaceFence.simps(2)) (simp only: m if_False)
  with Cons.IH [OF r] show ?case by simp
qed

lemma replaceJsonFence_plain: "\<not> includes_str s ''```'' \<Longrightarrow> replaceJsonFence s = s"
proof (induction s)
  case Nil
  show ?case by simp
next
  case (Cons c cs)
  have l3: "length ''```'' = 3" by simp
  note p = Cons.prems [unfolded includes_str.simps(2) l3]
  from p have f: "take 3 (c # cs) \<noteq> ''```''" and r: "\<not> includes_str cs ''```''"
    by blast+
  have m: "toLowerCase (take 7 (c # cs)) \<noteq> ''```json''"
  proof
    assume "toLowerCase (take 7 (c # cs)) = ''```json''"
    then have "take 3 (take 7 (c # cs)) = ''```''" by (rule json_fence_is_fence)
    moreover have "take 3 (take 7 (c # cs)) = take 3 (c # cs)" by (simp only: take_take) simp
    ultimately show False using f by (simp only:)
  qed
  have "replaceJsonFence (c # cs) = c # replaceJsonFence cs"
    by (subst replaceJsonFence.simps(2)) (simp only: m if_False)
  with Cons.IH [OF r] show ?case by simp
qed

lemma indexOf_last: "s \<noteq> [] \<Longrightarrow> lastIndexOf s (last s) = Some (length s - 1)"
proof -
  assume "s \<noteq> []"
  then have r: "rev s = last s # rev (butlast s)"
    by (metis append_butlast_last_id rev.simps(2) rev_append rev_rev_ident rev_singleton_conv)
  have "indexOf (rev s) (last s) = Some 0" by (subst r) simp
  then show ?thesis by (simp add: lastIndexOf_def)
qed

lemma extractJSON_plain:
  assumes "raw \<noteq> []" and "hd raw = CHR ''{''" and "last raw = CHR ''}''"
    and "\<not> includes_str raw ''```''"
  shows "extractJSON (trim raw) = raw"
proof -
  have t: "trim raw = raw"
    using assms(1,2,3) trim_id [of raw] by (simp add: isWhiteSpace_def)
  have s: "indexOf raw (CHR ''{'') = Some 0" using assms(1,2) by (cases raw) simp_all
  have e: "lastIndexOf raw (CHR ''}'') = Some (length raw - 1)"
    using indexOf_last [OF assms(1)] assms(3) by simp
  have "length raw \<noteq> 1"
  proof
    assume "length raw = 1"
    then obtain c where "raw = [c]" by (cases raw) auto
    then show False using assms(2,3) by simp
  qed
  then have l: "0 < length raw - 1" using assms(1) by (cases raw) auto
  have sub: "substring raw 0 (Suc (length raw - Suc 0)) = raw"
    using l by (simp add: substring_def)
  show ?thesis
    unfolding t extractJSON_def replaceJsonFence_plain [OF assms(4)] replaceFence_plain [OF assms(4)]
    using l by (simp add: t s e sub)
qed

subsection \<open>The fallback chains\<close>

lemma first_of_two:
  assumes "k \<in> {k1, k2}" and "\<forall>k'\<in>{k1, k2}. k' \<noteq> k \<longrightarrow> \<not> truthy (getProp result k')"
  shows "or_else (or_else (getProp result k1) (getProp result k2)) d = or_else (getProp result k) d"
proof (cases "k = k1")
  case True
  then show ?thesis using assms(2) by (cases "k2 = k1") (auto simp: or_else_def)
next
  case False
  then have "k = k2" "\<not> truthy (getProp result k1)" using assms by auto
  then show ?thesis by (simp add: or_else_def)
qed

lemma first_of_three:
  assumes "k \<in> {k1, k2, k3}"
    and "\<forall>k'\<in>{k1, k2, k3}. k' \<noteq> k \<longrightarrow> \<not> truthy (getProp result k')"
  shows "or_else (or_else (or_else (getProp result k1) (getProp result k2)) (getProp result k3)) d =
           or_else (getProp result k) d"
proof -
  have f: "\<And>j. j \<in> {k1, k2, k3} \<Longrightarrow> j \<noteq> k \<Longrightarrow> \<not> truthy (getProp result j)"
    using assms(2) by blast
  consider "k = k1" | "k \<noteq> k1" "k = k2" | "k \<noteq> k1" "k \<noteq> k2" "k = k3"
    using assms(1) by auto
  then show ?thesis
  proof cases
    case 1
    have "k2 = k \<or> \<not> truthy (getProp result k2)" "k3 = k \<or> \<not> truthy (getProp result k3)"
      using f [of k2] f [of k3] by auto
    then show ?thesis using 1 by (auto simp: or_else_def)
  next
    case 2
    have "\<not> truthy (getProp result k1)" "k3 = k \<or> \<not> truthy (getProp result k3)"
      using f [of k1] f [of k3] 2 by auto
    then show ?thesis using 2 by (auto simp: or_else_def)
  next
    case 3
    have "\<not> truthy (getProp result k1)" "\<not> truthy (getProp result k2)"
      using f [of k1] f [of k2] 3 by auto
    then show ?thesis using 3 by (simp add: or_else_def)
  qed
qed

text \<open>
  A confidence that is a number other than 0 is clamped: 150 becomes 100 and -5 becomes 0.
  The bound on the magnitude is the range in which a Number prints in plain decimal
  notation.
\<close>

lemma normalized_confidence_clamped:
  "normalized theRule result = Some v \<Longrightarrow> getProp result ''confidence'' = JNum n \<Longrightarrow>
     n \<noteq> 0 \<Longrightarrow> \<bar>n\<bar> < 10 ^ 21 \<Longrightarrow> confidence v = Num (min 100 (max 0 n))"
  by (auto simp: normalized_def or_else_def Let_def parseInt_JNum split: Option.bind_splits)

text \<open>
  The status of a returned object: \<^verbatim>\<open>pass\<close> exactly when the lower-cased text of the
  status value is \<^verbatim>\<open>pass\<close>, and \<^verbatim>\<open>fail\<close> otherwise.
\<close>

lemma normalized_status:
  assumes "normalized theRule result = Some v"
  shows "\<exists>st. ToString (statusRaw result) = Some st \<and>
              status v = (if toLowerCase st = ''pass'' then ''pass'' else ''fail'')"
  using assms by (auto simp: normalized_def Let_def split: Option.bind_splits)

lemma status_of_upper_case_reply:
  "normalize testEngine ''R'' ''{\"Status\":\"PASS\"}'' =
     Inr \<lparr>rule = ''R'', status = ''pass'', evidence = ''No evidence provided'',
          reasoning = ''No reasoning provided'', confidence = Num 50\<rparr> \<and>
   normalize testEngine ''R'' ''{\"Status\":\"maybe\"}'' =
     Inr \<lparr>rule = ''R'', status = ''fail'', evidence = ''No evidence provided'',
          reasoning = ''No reasoning provided'', confidence = Num 50\<rparr>"
  by code_simp

section \<open>The claims\<close>

subsection \<open>C1: every result is well-formed\<close>

text \<open>
  C1 says that for every reply and every rule the returned object has its five fields,
  a status among pass, fail and error, and an integer confidence from 0 to 100. The code
  does not keep the last part: a confidence that is a non-empty string without leading
  digits passes the \<^verbatim>\<open>|| 50\<close> default, \<^verbatim>\<open>parseInt\<close> turns it into \<^verbatim>\<open>NaN\<close>, and
  \<^verbatim>\<open>Math.min(100, Math.max(0, NaN))\<close> is \<^verbatim>\<open>NaN\<close>. The reply below is one such input.
\<close>

theorem C1_confidence_not_a_number:
  "normalize testEngine ''The document must state a purpose.''
     ''{\"status\":\"pass\",\"evidence\":\"e\",\"reasoning\":\"r\",\"confidence\":\"high\"}'' =
   Inr \<lparr>rule = ''The document must state a purpose.'', status = ''pass'', evidence = ''e'',
        reasoning = ''r'', confidence = NaN\<rparr>"
  by code_simp

subsection \<open>C2: the reply that does not parse\<close>

text \<open>
  C2, as amended: for every reply whose cleaned text \<^verbatim>\<open>JSON.parse\<close> rejects, the
  normalization returns an object (it does not throw) with status \<^verbatim>\<open>fail\<close>, evidence
  \<^verbatim>\<open>Unable to parse LLM response\<close>, a reasoning made of the parse error's message and the
  first 100 characters of the cleaned text, and confidence 0.
\<close>

theorem C2_parse_failure_result:
  assumes "JSON_parse eng (extractJSON (trim raw)) = Inl message"
  shows "normalize eng theRule raw =
           Inr \<lparr>rule = theRule,
                status = ''fail'',
                evidence = ''Unable to parse LLM response'',
                reasoning =
                  ''Parse error: '' @ message @ ''. Raw content: '' @
                    take 100 (extractJSON (trim raw)),
                confidence = Num 0\<rparr>"
  using assms by (simp add: normalize_def parseErrorResult_def substring_def)

text \<open>
  The amended C2 at a reply that was cut off.
\<close>

theorem C2_parse_failure_result_witness:
  "JSON_parse testEngine (extractJSON (trim ''{\"status\": \"pass\", \"evid'')) =
     Inl ''Unexpected token in JSON'' \<and>
   normalize testEngine ''R'' ''{\"status\": \"pass\", \"evid'' =
     Inr \<lparr>rule = ''R'',
          status = ''fail'',
          evidence = ''Unable to parse LLM response'',
          reasoning =
            ''Parse error: Unexpected token in JSON. Raw content: {\"status\": \"pass\", \"evid'',
          confidence = Num 0\<rparr>"
proof -
  have h: "JSON_parse testEngine (extractJSON (trim ''{\"status\": \"pass\", \"evid'')) =
             Inl ''Unexpected token in JSON''"
    by code_simp
  have e: "extractJSON (trim ''{\"status\": \"pass\", \"evid'') = ''{\"status\": \"pass\", \"evid''"
    by code_simp
  show ?thesis
    using h C2_parse_failure_result [OF h, of "''R''"] by (simp add: e)
qed

text \<open>
  C2 as stated asks for the status \<^verbatim>\<open>error\<close>. On the reply \<^verbatim>\<open>I think it passes.\<close> the
  parse fails and the status is \<^verbatim>\<open>fail\<close>.
\<close>

theorem C2_status_is_fail_counterexample:
  "JSON_parse testEngine (extractJSON (trim ''I think it passes.'')) =
     Inl ''Unexpected token in JSON'' \<and>
   normalize testEngine ''R'' ''I think it passes.'' =
     Inr \<lparr>rule = ''R'',
          status = ''fail'',
          evidence = ''Unable to parse LLM response'',
          reasoning = ''Parse error: Unexpected token in JSON. Raw content: I think it passes.'',
          confidence = Num 0\<rparr> \<and>
   map_sum id status (normalize testEngine ''R'' ''I think it passes.'') \<noteq> Inr ''error''"
  by code_simp

subsection \<open>C3: the missing key\<close>

text \<open>
  C3, as amended: when the key is not set or empty, no request is sent and the loop
  goes on through all rules; each rule gets its own result with status \<^verbatim>\<open>error\<close>,
  evidence \<^verbatim>\<open>N/A\<close>, the reasoning \<^verbatim>\<open>Groq API key not configured in .env file\<close> and
  confidence 0, in the order of the rules.
\<close>

theorem C3_missing_key_per_rule:
  assumes "apiKey = None \<or> apiKey = Some []"
  shows "validateRules eng apiKey net pdfText rules results sent =
           (results @
              map (\<lambda>r. \<lparr>rule = r,
                         status = ''error'',
                         evidence = ''N/A'',
                         reasoning = ''Groq API key not configured in .env file'',
                         confidence = Num 0\<rparr>) rules,
            sent)"
  using assms
  by (induction rules arbitrary: results) (auto simp: validateWithLLM_def errorResult_def)

text \<open>
  The amended C3 with an empty key and one rule.
\<close>

theorem C3_missing_key_per_rule_witness:
  "validateRules testEngine (Some []) (\<lambda>sent req. NoChoice) ''text'' [''rule one''] [] [] =
     ([\<lparr>rule = ''rule one'',
        status = ''error'',
        evidence = ''N/A'',
        reasoning = ''Groq API key not configured in .env file'',
        confidence = Num 0\<rparr>], [])"
  using C3_missing_key_per_rule [of "Some []" testEngine "\<lambda>sent req. NoChoice" "''text''"
      "[''rule one'']" "[]" "[]"]
  by simp

text \<open>
  C3 as stated says that the missing key ends the batch before any work on a rule, and
  is not turned into results of the rules. With no key and two rules the loop returns two
  results, one for each rule.
\<close>

theorem C3_batch_not_aborted_counterexample:
  "validateRules testEngine None (\<lambda>sent req. Content ''{}'') ''text'' [''a'', ''b''] [] [] =
     ([\<lparr>rule = ''a'',
        status = ''error'',
        evidence = ''N/A'',
        reasoning = ''Groq API key not configured in .env file'',
        confidence = Num 0\<rparr>,
       \<lparr>rule = ''b'',
        status = ''error'',
        evidence = ''N/A'',
        reasoning = ''Groq API key not configured in .env file'',
        confidence = Num 0\<rparr>], [])"
  by (simp add: validateWithLLM_def errorResult_def)

subsection \<open>C4: one result for each rule, in order\<close>

text \<open>
  C4: started with no results, the loop returns as many results as there are rules; the
  result at position \<open>i\<close> carries rule \<open>i\<close> and is what \<^verbatim>\<open>validateWithLLM\<close> returns
  for rule \<open>i\<close>, or, when that call throws, the object with status \<^verbatim>\<open>error\<close>, evidence
  \<^verbatim>\<open>N/A\<close>, the error's message as reasoning and confidence 0. The call for rule \<open>i\<close>
  sees the requests of the rules before it and nothing else of them: whether an earlier
  rule failed does not enter.
\<close>

theorem C4_one_result_per_rule:
  "length (fst (validateRules eng apiKey net pdfText rules [] sent)) = length rules \<and>
   (\<forall>i<length rules.
      rule (fst (validateRules eng apiKey net pdfText rules [] sent) ! i) = rules ! i \<and>
      fst (validateRules eng apiKey net pdfText rules [] sent) ! i =
        (case fst (validateWithLLM eng apiKey net pdfText (rules ! i)
                     (sent @ requestsFor apiKey pdfText (take i rules))) of
           Inl message \<Rightarrow>
             \<lparr>rule = rules ! i,
              status = ''error'',
              evidence = ''N/A'',
              reasoning = message,
              confidence = Num 0\<rparr>
         | Inr result \<Rightarrow> result))"
proof (intro conjI allI impI)
  show "length (fst (validateRules eng apiKey net pdfText rules [] sent)) = length rules"
    by (rule validateRules_length)
next
  fix i
  assume i: "i < length rules"
  let ?w = "validateWithLLM eng apiKey net pdfText (rules ! i)
              (sent @ requestsFor apiKey pdfText (take i rules))"
  note n = validateRules_nth [OF i, of eng apiKey net pdfText sent]
  show "fst (validateRules eng apiKey net pdfText rules [] sent) ! i =
        (case fst ?w of
           Inl message \<Rightarrow>
             \<lparr>rule = rules ! i, status = ''error'', evidence = ''N/A'', reasoning = message,
              confidence = Num 0\<rparr>
         | Inr result \<Rightarrow> result)"
    using n by (simp add: errorResult_def split: sum.splits)
  show "rule (fst (validateRules eng apiKey net pdfText rules [] sent) ! i) = rules ! i"
  proof (cases "fst ?w")
    case (Inl m)
    then show ?thesis using n by (simp add: errorResult_def)
  next
    case (Inr v)
    then have "?w = (Inr v, snd ?w)" by (simp add: prod_eq_iff)
    then have "rule v = rules ! i" by (rule validateWithLLM_rule)
    then show ?thesis using n Inr by simp
  qed
qed

text \<open>
  C4 on three rules, where the second request fails in transport: three results, the
  second with status \<^verbatim>\<open>error\<close>, the third from its reply.
\<close>

theorem C4_one_result_per_rule_witness:
  "(1::nat) < length [''a'', ''b'', ''c''] \<and>
   length (fst (validateRules testEngine (Some ''key'')
      (\<lambda>sent req. if length sent = 1 then Threw ''fetch failed''
         else Content ''{\"status\":\"pass\",\"evidence\":\"e\",\"reasoning\":\"r\",\"confidence\":87}'')
      ''text'' [''a'', ''b'', ''c''] [] [])) = 3 \<and>
   fst (validateRules testEngine (Some ''key'')
      (\<lambda>sent req. if length sent = 1 then Threw ''fetch failed''
         else Content ''{\"status\":\"pass\",\"evidence\":\"e\",\"reasoning\":\"r\",\"confidence\":87}'')
      ''text'' [''a'', ''b'', ''c''] [] []) ! 1 =
     \<lparr>rule = ''b'', status = ''error'', evidence = ''N/A'', reasoning = ''fetch failed'',
      confidence = Num 0\<rparr> \<and>
   fst (validateRules testEngine (Some ''key'')
      (\<lambda>sent req. if length sent = 1 then Threw ''fetch failed''
         else Content ''{\"status\":\"pass\",\"evidence\":\"e\",\"reasoning\":\"r\",\"confidence\":87}'')
      ''text'' [''a'', ''b'', ''c''] [] []) ! 2 =
     \<lparr>rule = ''c'', status = ''pass'', evidence = ''e'', reasoning = ''r'',
      confidence = Num 87\<rparr>"
proof -
  let ?net = "\<lambda>sent req. if length sent = 1 then Threw ''fetch failed''
         else Content ''{\"status\":\"pass\",\"evidence\":\"e\",\"reasoning\":\"r\",\"confidence\":87}''"
  let ?rules = "[''a'', ''b'', ''c'']"
  note c4 = C4_one_result_per_rule [of testEngine "Some ''key''" ?net "''text''" ?rules "[]"]
  have e1: "fst (validateWithLLM testEngine (Some ''key'') ?net ''text'' (?rules ! 1)
                   ([] @ requestsFor (Some ''key'') ''text'' (take 1 ?rules))) =
              Inl ''fetch failed''"
    by code_simp
  have e2: "fst (validateWithLLM testEngine (Some ''key'') ?net ''text'' (?rules ! 2)
                   ([] @ requestsFor (Some ''key'') ''text'' (take 2 ?rules))) =
              Inr \<lparr>rule = ''c'', status = ''pass'', evidence = ''e'', reasoning = ''r'',
                   confidence = Num 87\<rparr>"
    by code_simp
  have l: "(1::nat) < length ?rules" "(2::nat) < length ?rules" by simp_all
  from c4 have n: "length (fst (validateRules testEngine (Some ''key'') ?net ''text'' ?rules [] [])) = 3"
    by simp
  from c4 [THEN conjunct2, rule_format, OF l(1)] e1
  have r1: "fst (validateRules testEngine (Some ''key'') ?net ''text'' ?rules [] []) ! 1 =
     \<lparr>rule = ''b'', status = ''error'', evidence = ''N/A'', reasoning = ''fetch failed'',
      confidence = Num 0\<rparr>"
    by simp
  from c4 [THEN conjunct2, rule_format, OF l(2)] e2
  have r2: "fst (validateRules testEngine (Some ''key'') ?net ''text'' ?rules [] []) ! 2 =
     \<lparr>rule = ''c'', status = ''pass'', evidence = ''e'', reasoning = ''r'',
      confidence = Num 87\<rparr>"
    by simp
  from l(1) n r1 r2 show ?thesis by blast
qed

subsection \<open>C5: the well-formed reply\<close>

text \<open>
  C5, as amended: let the reply be the text of a JSON object, from its opening brace to
  its closing brace, that holds no three backticks in a row, with \<^verbatim>\<open>status\<close> the string
  \<^verbatim>\<open>pass\<close> or \<^verbatim>\<open>fail\<close>, \<^verbatim>\<open>evidence\<close> and \<^verbatim>\<open>reasoning\<close> non-empty strings of at
  most 200 characters and \<^verbatim>\<open>confidence\<close> an integer from 1 to 100. Then the
  normalization returns these four values unchanged, with the rule.
\<close>

theorem C5_well_formed_reply_reproduced:
  assumes "raw \<noteq> []" and "hd raw = CHR ''{''" and "last raw = CHR ''}''"
    and "\<not> includes_str raw ''```''"
    and "JSON_parse eng raw = Inr result"
    and "getProp result ''status'' = JStr s" and "s = ''pass'' \<or> s = ''fail''"
    and "getProp result ''evidence'' = JStr e" and "e \<noteq> []" and "length e \<le> 200"
    and "getProp result ''reasoning'' = JStr r" and "r \<noteq> []" and "length r \<le> 200"
    and "getProp result ''confidence'' = JNum n" and "1 \<le> n" and "n \<le> 100"
  shows "normalize eng theRule raw =
           Inr \<lparr>rule = theRule, status = s, evidence = e, reasoning = r, confidence = Num n\<rparr>"
proof -
  have x: "extractJSON (trim raw) = raw" using assms(1,2,3,4) by (rule extractJSON_plain)
  have nn: "result \<noteq> JNull" "result \<noteq> JUndefined" using assms(6) by auto
  have st: "toLowerCase s = s" "s \<noteq> []"
    using assms(7) by (auto simp: toLowerCase_def isUpper_def)
  have v: "(if s = ''pass'' \<or> s = ''fail'' then s else ''fail'') = s" using assms(7) by simp
  have c: "Math_min (Num 100) (Math_max (Num 0) (Num n)) = Num n"
    using assms(15,16) by simp
  have n0: "n \<noteq> 0" using assms(15) by simp
  show ?thesis
    using assms(5,6,8,9,10,11,12,13,14) x nn st v c n0
    by (simp add: normalize_def normalized_def or_else_def substring_def parseInt_JNum
          del: Let_def)
qed

text \<open>
  The amended C5 on the end-to-end scenario of the specification.
\<close>

theorem C5_well_formed_reply_reproduced_witness:
  "normalize testEngine ''The document must state a purpose.''
     ''{\"status\":\"pass\",\"evidence\":\"Purpose: to define onboarding steps.\",\"reasoning\":\"Document opens with an explicit purpose statement.\",\"confidence\":93}'' =
   Inr \<lparr>rule = ''The document must state a purpose.'', status = ''pass'',
        evidence = ''Purpose: to define onboarding steps.'',
        reasoning = ''Document opens with an explicit purpose statement.'',
        confidence = Num 93\<rparr>"
proof -
  let ?raw = "''{\"status\":\"pass\",\"evidence\":\"Purpose: to define onboarding steps.\",\"reasoning\":\"Document opens with an explicit purpose statement.\",\"confidence\":93}''"
  let ?result = "JObj [(''status'', JStr ''pass''),
     (''evidence'', JStr ''Purpose: to define onboarding steps.''),
     (''reasoning'', JStr ''Document opens with an explicit purpose statement.''),
     (''confidence'', JNum 93)]"
  have p: "JSON_parse testEngine ?raw = Inr ?result"
    by code_simp
  have f: "\<not> includes_str ?raw ''```''"
    by code_simp
  have b: "?raw \<noteq> []" "hd ?raw = CHR ''{''" "last ?raw = CHR ''}''"
    by simp_all
  show ?thesis
    using C5_well_formed_reply_reproduced [OF b f p, of "''pass''"
        "''Purpose: to define onboarding steps.''"
        "''Document opens with an explicit purpose statement.''" 93]
    by simp
qed

text \<open>
  C5 as stated admits an empty evidence, the confidence 0 and a fence inside a string.
  The first two are replaced by the fallbacks; the reply whose evidence is
  \<^verbatim>\<open>use ```json fences\<close> parses to that evidence and comes out with \<^verbatim>\<open>use fences\<close>.
\<close>

theorem C5_falsy_or_fenced_counterexample:
  "normalize testEngine ''R''
     ''{\"status\":\"pass\",\"evidence\":\"\",\"reasoning\":\"r\",\"confidence\":0}'' =
   Inr \<lparr>rule = ''R'', status = ''pass'', evidence = ''No evidence provided'',
        reasoning = ''r'', confidence = Num 50\<rparr> \<and>
   JSON_parse testEngine
     ''{\"status\":\"pass\",\"evidence\":\"use ```json fences\",\"reasoning\":\"r\",\"confidence\":87}'' =
   Inr (JObj [(''status'', JStr ''pass''), (''evidence'', JStr ''use ```json fences''),
              (''reasoning'', JStr ''r''), (''confidence'', JNum 87)]) \<and>
   normalize testEngine ''R''
     ''{\"status\":\"pass\",\"evidence\":\"use ```json fences\",\"reasoning\":\"r\",\"confidence\":87}'' =
   Inr \<lparr>rule = ''R'', status = ''pass'', evidence = ''use fences'',
        reasoning = ''r'', confidence = Num 87\<rparr>"
  by code_simp

subsection \<open>C6: the clamp of the confidence\<close>

text \<open>
  C6 says that the confidence is parsed to an integer and clamped to 0..100, and that a
  non-numeric confidence defaults to 50 before that. The clamp holds for numbers
  (\<open>normalized_confidence_clamped\<close>). The default does not: it is taken for a missing
  or falsy value only, and a non-empty non-numeric string ends as \<^verbatim>\<open>NaN\<close>, as on the
  reply below.
\<close>

theorem C6_non_numeric_confidence:
  "normalize testEngine ''R'' ''{\"status\":\"fail\",\"confidence\":\"n/a\"}'' =
   Inr \<lparr>rule = ''R'', status = ''fail'', evidence = ''No evidence provided'',
        reasoning = ''No reasoning provided'', confidence = NaN\<rparr>"
  by code_simp

subsection \<open>C7: fences do not change the result\<close>

text \<open>
  C7: for a text that begins with an opening brace and ends with a closing brace, the
  reply that wraps it in \<^verbatim>\<open>```json\<close> and \<^verbatim>\<open>```\<close>, with any white space between the
  fences and the text, is normalized to the same result as the text itself.
\<close>

theorem C7_fenced_reply_same_result:
  assumes "t \<noteq> []" and "hd t = CHR ''{''" and "last t = CHR ''}''"
    and "\<forall>c\<in>set w1. isWhiteSpace c" and "\<forall>c\<in>set w2. isWhiteSpace c"
  shows "normalize eng theRule (''```json'' @ w1 @ t @ w2 @ ''```'') = normalize eng theRule t"
  using extractJSON_fenced [OF assms] by (simp only: normalize_def)

text \<open>
  C7 on the fenced form of a reply, with a line feed inside each fence.
\<close>

theorem C7_fenced_reply_same_result_witness:
  "normalize testEngine ''R''
     ''```json\<newline>{\"status\":\"pass\",\"evidence\":\"e\",\"reasoning\":\"r\",\"confidence\":87}\<newline>```'' =
   normalize testEngine ''R''
     ''{\"status\":\"pass\",\"evidence\":\"e\",\"reasoning\":\"r\",\"confidence\":87}'' \<and>
   normalize testEngine ''R''
     ''{\"status\":\"pass\",\"evidence\":\"e\",\"reasoning\":\"r\",\"confidence\":87}'' =
   Inr \<lparr>rule = ''R'', status = ''pass'', evidence = ''e'', reasoning = ''r'',
        confidence = Num 87\<rparr>"
proof -
  have e: "normalize testEngine ''R''
     ''{\"status\":\"pass\",\"evidence\":\"e\",\"reasoning\":\"r\",\"confidence\":87}'' =
   Inr \<lparr>rule = ''R'', status = ''pass'', evidence = ''e'', reasoning = ''r'',
        confidence = Num 87\<rparr>"
    by code_simp
  show ?thesis
    using e C7_fenced_reply_same_result [of
        "''{\"status\":\"pass\",\"evidence\":\"e\",\"reasoning\":\"r\",\"confidence\":87}''"
        "''\<newline>''" "''\<newline>''" testEngine "''R''"]
    by (simp add: isWhiteSpace_def)
qed

subsection \<open>C8: synonyms of the field names\<close>

text \<open>
  C8: let the status be given under one of \<^verbatim>\<open>status\<close>, \<^verbatim>\<open>Status\<close>, the evidence
  under one of \<^verbatim>\<open>evidence\<close>, \<^verbatim>\<open>Evidence\<close>, \<^verbatim>\<open>quote\<close>, the reasoning under one of
  \<^verbatim>\<open>reasoning\<close>, \<^verbatim>\<open>Reasoning\<close>, \<^verbatim>\<open>reason\<close> and the confidence under one of
  \<^verbatim>\<open>confidence\<close>, \<^verbatim>\<open>Confidence\<close>, \<^verbatim>\<open>score\<close>, the other names of each field being
  absent or falsy. Then the fields are those of the object that holds the same four
  values under the canonical names.
\<close>

theorem C8_synonym_keys:
  assumes "ks \<in> {''status'', ''Status''}"
    and "\<forall>k\<in>{''status'', ''Status''}. k \<noteq> ks \<longrightarrow> \<not> truthy (getProp result k)"
    and "ke \<in> {''evidence'', ''Evidence'', ''quote''}"
    and "\<forall>k\<in>{''evidence'', ''Evidence'', ''quote''}. k \<noteq> ke \<longrightarrow> \<not> truthy (getProp result k)"
    and "kr \<in> {''reasoning'', ''Reasoning'', ''reason''}"
    and "\<forall>k\<in>{''reasoning'', ''Reasoning'', ''reason''}. k \<noteq> kr \<longrightarrow> \<not> truthy (getProp result k)"
    and "kc \<in> {''confidence'', ''Confidence'', ''score''}"
    and "\<forall>k\<in>{''confidence'', ''Confidence'', ''score''}. k \<noteq> kc \<longrightarrow> \<not> truthy (getProp result k)"
  shows "normalized theRule result =
           normalized theRule
             (JObj [(''status'', getProp result ks), (''evidence'', getProp result ke),
                    (''reasoning'', getProp result kr), (''confidence'', getProp result kc)])"
proof -
  let ?canonical = "JObj [(''status'', getProp result ks), (''evidence'', getProp result ke),
                    (''reasoning'', getProp result kr), (''confidence'', getProp result kc)]"
  note S = first_of_two [OF assms(1,2)]
  note E = first_of_three [OF assms(3,4)]
  note R = first_of_three [OF assms(5,6)]
  note C = first_of_three [OF assms(7,8)]
  have g: "getProp ?canonical ''status'' = getProp result ks"
    "getProp ?canonical ''Status'' = JUndefined"
    "getProp ?canonical ''evidence'' = getProp result ke"
    "getProp ?canonical ''Evidence'' = JUndefined"
    "getProp ?canonical ''quote'' = JUndefined"
    "getProp ?canonical ''reasoning'' = getProp result kr"
    "getProp ?canonical ''Reasoning'' = JUndefined"
    "getProp ?canonical ''reason'' = JUndefined"
    "getProp ?canonical ''confidence'' = getProp result kc"
    "getProp ?canonical ''Confidence'' = JUndefined"
    "getProp ?canonical ''score'' = JUndefined"
    by simp_all
  have u: "\<And>a d. or_else (or_else a JUndefined) d = or_else a d"
    "\<And>a d. or_else (or_else (or_else a JUndefined) JUndefined) d = or_else a d"
    by (simp_all add: or_else_def)
  show ?thesis
    unfolding normalized_def g u S E R C ..
qed

text \<open>
  C8 on a reply that uses \<^verbatim>\<open>Status\<close>, \<^verbatim>\<open>quote\<close>, \<^verbatim>\<open>reason\<close> and \<^verbatim>\<open>score\<close>.
\<close>

theorem C8_synonym_keys_witness:
  "normalized ''R''
     (JObj [(''Status'', JStr ''PASS''), (''quote'', JStr ''q''), (''reason'', JStr ''why''),
            (''score'', JNum 90)]) =
   Some \<lparr>rule = ''R'', status = ''pass'', evidence = ''q'', reasoning = ''why'',
         confidence = Num 90\<rparr>"
proof -
  have e: "normalized ''R''
     (JObj [(''status'', JStr ''PASS''), (''evidence'', JStr ''q''), (''reasoning'', JStr ''why''),
            (''confidence'', JNum 90)]) =
   Some \<lparr>rule = ''R'', status = ''pass'', evidence = ''q'', reasoning = ''why'',
         confidence = Num 90\<rparr>"
    by code_simp
  show ?thesis
    using e C8_synonym_keys [of "''Status''"
        "JObj [(''Status'', JStr ''PASS''), (''quote'', JStr ''q''), (''reason'', JStr ''why''),
            (''score'', JNum 90)]" "''quote''" "''reason''" "''score''" "''R''"]
    by simp
qed

subsection \<open>C9: the status is pass or fail\<close>

text \<open>
  C9 says that for every parsed reply whose lower-cased status is not \<^verbatim>\<open>pass\<close> or
  \<^verbatim>\<open>fail\<close>, also when the status is missing, the result has the status \<^verbatim>\<open>fail\<close>. For
  a returned object this holds (\<open>normalized_status\<close>). The reply \<^verbatim>\<open>null\<close> parses, has no
  status, and gets no such object: the read \<^verbatim>\<open>result.status\<close> throws, and the route
  pushes a result with the status \<^verbatim>\<open>error\<close>.
\<close>

theorem C9_null_reply_gets_error:
  "JSON_parse testEngine (extractJSON (trim ''null'')) = Inr JNull \<and>
   normalize testEngine ''R'' ''null'' = Inl (cannot_read testEngine JNull ''status'') \<and>
   validateRules testEngine (Some ''key'') (\<lambda>sent req. Content ''null'') ''text'' [''R''] [] [] =
     ([\<lparr>rule = ''R'', status = ''error'', evidence = ''N/A'',
        reasoning = cannot_read testEngine JNull ''status'', confidence = Num 0\<rparr>],
      [buildRequest ''key'' ''text'' ''R''])"
  by code_simp

subsection \<open>C10: falsy values count as missing\<close>

text \<open>
  C10, as amended: in a parsed reply, an \<^verbatim>\<open>evidence\<close> or \<^verbatim>\<open>reasoning\<close> that is the
  empty string and a \<^verbatim>\<open>confidence\<close> that is 0 are replaced by \<^verbatim>\<open>No evidence provided\<close>,
  \<^verbatim>\<open>No reasoning provided\<close> and 50, when no other name of the field holds a truthy value:
  the normalization returns a result with that fallback whenever the values of the other
  three fields convert to strings.
\<close>

theorem C10_falsy_value_replaced:
  assumes "JSON_parse eng (extractJSON (trim raw)) = Inr result"
  shows "(getProp result ''evidence'' = JStr [] \<and> \<not> truthy (getProp result ''Evidence'') \<and>
            \<not> truthy (getProp result ''quote'') \<and>
            ToString (statusRaw result) \<noteq> None \<and> ToString (reasoningRaw result) \<noteq> None \<and>
            parseInt (confidenceRaw result) \<noteq> None \<longrightarrow>
            (\<exists>v. normalize eng theRule raw = Inr v \<and> evidence v = ''No evidence provided'')) \<and>
         (getProp result ''reasoning'' = JStr [] \<and> \<not> truthy (getProp result ''Reasoning'') \<and>
            \<not> truthy (getProp result ''reason'') \<and>
            ToString (statusRaw result) \<noteq> None \<and> ToString (evidenceRaw result) \<noteq> None \<and>
            parseInt (confidenceRaw result) \<noteq> None \<longrightarrow>
            (\<exists>v. normalize eng theRule raw = Inr v \<and> reasoning v = ''No reasoning provided'')) \<and>
         (getProp result ''confidence'' = JNum 0 \<and> \<not> truthy (getProp result ''Confidence'') \<and>
            \<not> truthy (getProp result ''score'') \<and>
            ToString (statusRaw result) \<noteq> None \<and> ToString (evidenceRaw result) \<noteq> None \<and>
            ToString (reasoningRaw result) \<noteq> None \<longrightarrow>
            (\<exists>v. normalize eng theRule raw = Inr v \<and> confidence v = Num 50))"
proof (intro conjI impI)
  assume h: "getProp result ''evidence'' = JStr [] \<and> \<not> truthy (getProp result ''Evidence'') \<and>
            \<not> truthy (getProp result ''quote'') \<and>
            ToString (statusRaw result) \<noteq> None \<and> ToString (reasoningRaw result) \<noteq> None \<and>
            parseInt (confidenceRaw result) \<noteq> None"
  then have nn: "result \<noteq> JNull" "result \<noteq> JUndefined" by auto
  from h obtain st rt c where c: "ToString (statusRaw result) = Some st"
      "ToString (reasoningRaw result) = Some rt" "parseInt (confidenceRaw result) = Some c"
    by auto
  have f: "evidenceRaw result = JStr ''No evidence provided''" using h by (simp add: or_else_def)
  obtain v where v: "normalized theRule result = Some v" "evidence v = ''No evidence provided''"
    by (simp add: normalized_def c f substring_def Let_def)
  then show "\<exists>v. normalize eng theRule raw = Inr v \<and> evidence v = ''No evidence provided''"
    using assms nn by (simp add: normalize_def)
next
  assume h: "getProp result ''reasoning'' = JStr [] \<and> \<not> truthy (getProp result ''Reasoning'') \<and>
            \<not> truthy (getProp result ''reason'') \<and>
            ToString (statusRaw result) \<noteq> None \<and> ToString (evidenceRaw result) \<noteq> None \<and>
            parseInt (confidenceRaw result) \<noteq> None"
  then have nn: "result \<noteq> JNull" "result \<noteq> JUndefined" by auto
  from h obtain st et c where c: "ToString (statusRaw result) = Some st"
      "ToString (evidenceRaw result) = Some et" "parseInt (confidenceRaw result) = Some c"
    by auto
  have f: "reasoningRaw result = JStr ''No reasoning provided''" using h by (simp add: or_else_def)
  obtain v where v: "normalized theRule result = Some v" "reasoning v = ''No reasoning provided''"
    by (simp add: normalized_def c f substring_def Let_def)
  then show "\<exists>v. normalize eng theRule raw = Inr v \<and> reasoning v = ''No reasoning provided''"
    using assms nn by (simp add: normalize_def)
next
  assume h: "getProp result ''confidence'' = JNum 0 \<and> \<not> truthy (getProp result ''Confidence'') \<and>
            \<not> truthy (getProp result ''score'') \<and>
            ToString (statusRaw result) \<noteq> None \<and> ToString (evidenceRaw result) \<noteq> None \<and>
            ToString (reasoningRaw result) \<noteq> None"
  then have nn: "result \<noteq> JNull" "result \<noteq> JUndefined" by auto
  from h obtain st et rt where c: "ToString (statusRaw result) = Some st"
      "ToString (evidenceRaw result) = Some et" "ToString (reasoningRaw result) = Some rt"
    by auto
  have f: "confidenceRaw result = JNum 50" using h by (simp add: or_else_def)
  obtain v where v: "normalized theRule result = Some v" "confidence v = Num 50"
    by (simp add: normalized_def c f parseInt_JNum Let_def)
  then show "\<exists>v. normalize eng theRule raw = Inr v \<and> confidence v = Num 50"
    using assms nn by (simp add: normalize_def)
qed

text \<open>
  The amended C10 on a reply with empty strings and the confidence 0.
\<close>

theorem C10_falsy_value_replaced_witness:
  "normalize testEngine ''R''
     ''{\"status\":\"fail\",\"evidence\":\"\",\"reasoning\":\"\",\"confidence\":0}'' =
     Inr \<lparr>rule = ''R'', status = ''fail'', evidence = ''No evidence provided'',
          reasoning = ''No reasoning provided'', confidence = Num 50\<rparr> \<and>
   (\<exists>v. normalize testEngine ''R''
          ''{\"status\":\"fail\",\"evidence\":\"\",\"reasoning\":\"\",\"confidence\":0}'' = Inr v \<and>
        evidence v = ''No evidence provided'') \<and>
   (\<exists>v. normalize testEngine ''R''
          ''{\"status\":\"fail\",\"evidence\":\"\",\"reasoning\":\"\",\"confidence\":0}'' = Inr v \<and>
        reasoning v = ''No reasoning provided'') \<and>
   (\<exists>v. normalize testEngine ''R''
          ''{\"status\":\"fail\",\"evidence\":\"\",\"reasoning\":\"\",\"confidence\":0}'' = Inr v \<and>
        confidence v = Num 50)"
proof -
  let ?raw = "''{\"status\":\"fail\",\"evidence\":\"\",\"reasoning\":\"\",\"confidence\":0}''"
  let ?result = "JObj [(''status'', JStr ''fail''), (''evidence'', JStr []), (''reasoning'', JStr []),
              (''confidence'', JNum 0)]"
  have p: "JSON_parse testEngine (extractJSON (trim ?raw)) = Inr ?result"
    by code_simp
  have q: "normalize testEngine ''R'' ?raw =
     Inr \<lparr>rule = ''R'', status = ''fail'', evidence = ''No evidence provided'',
          reasoning = ''No reasoning provided'', confidence = Num 50\<rparr>"
    by code_simp
  have g: "getProp ?result ''status'' = JStr ''fail''" "getProp ?result ''Status'' = JUndefined"
    "getProp ?result ''evidence'' = JStr []" "getProp ?result ''Evidence'' = JUndefined"
    "getProp ?result ''quote'' = JUndefined"
    "getProp ?result ''reasoning'' = JStr []" "getProp ?result ''Reasoning'' = JUndefined"
    "getProp ?result ''reason'' = JUndefined"
    "getProp ?result ''confidence'' = JNum 0" "getProp ?result ''Confidence'' = JUndefined"
    "getProp ?result ''score'' = JUndefined"
    by simp_all
  note t = C10_falsy_value_replaced [OF p, of "''R''"]
  from t [THEN conjunct1] have a: "\<exists>v. normalize testEngine ''R'' ?raw = Inr v \<and>
        evidence v = ''No evidence provided''"
    unfolding g by (simp add: or_else_def parseInt_JNum)
  from t [THEN conjunct2, THEN conjunct1] have b: "\<exists>v. normalize testEngine ''R'' ?raw = Inr v \<and>
        reasoning v = ''No reasoning provided''"
    unfolding g by (simp add: or_else_def parseInt_JNum)
  from t [THEN conjunct2, THEN conjunct2] have c: "\<exists>v. normalize testEngine ''R'' ?raw = Inr v \<and>
        confidence v = Num 50"
    unfolding g by (simp add: or_else_def)
  from q a b c show ?thesis by (intro conjI)
qed

text \<open>
  C10 as stated has the fallback replace every falsy value. With the confidence 0 and
  the score 77 the result has 77, with an empty evidence and the quote \<^verbatim>\<open>q\<close> it has
  \<^verbatim>\<open>q\<close>, and with an empty evidence beside a status that does not convert to a string
  no result is returned.
\<close>

theorem C10_synonym_wins_counterexample:
  "normalize testEngine ''R'' ''{\"status\":\"fail\",\"confidence\":0,\"score\":77}'' =
     Inr \<lparr>rule = ''R'', status = ''fail'', evidence = ''No evidence provided'',
          reasoning = ''No reasoning provided'', confidence = Num 77\<rparr> \<and>
   normalize testEngine ''R'' ''{\"evidence\":\"\",\"quote\":\"q\"}'' =
     Inr \<lparr>rule = ''R'', status = ''fail'', evidence = ''q'',
          reasoning = ''No reasoning provided'', confidence = Num 50\<rparr> \<and>
   normalize testEngine ''R'' ''{\"evidence\":\"\",\"status\":{\"toString\":1}}'' =
     Inl (cannot_convert testEngine)"
  by code_simp

end
